theory Spec2Isabelle
  imports Complex_Main "HOL-Library.Word" "HOL-Library.Signed_Division"
begin

section \<open>Textfile exporter: the scan loop of \<open>main.go\<close>\<close>

text \<open>
  The background goroutine of \<open>main\<close> stats the configured path, lists the \<open>*.prom\<close>
  files, empties the collector and then, file by file, either runs the external command
  (old files) or parses the file and adds one point per metric to the collector.
  The embedding below follows \<open>main.go\<close> statement by statement. Everything the loop
  does to the outside (log lines, the external command, calls of the collector,
  \<open>time.Sleep\<close>) is appended, in program order, to a trace; everything it reads from the
  outside (file system, decoder, command output, clock) comes from an environment.
\<close>

subsection \<open>Go base types\<close>

type_synonym int64 = "64 word"

text \<open>\<open>float64\<close> values are only moved from the decoded metric to the collector, never
  computed on, so they are carried as reals.\<close>
type_synonym float64 = real

text \<open>A \<open>time.Time\<close> is the instant in nanoseconds since the Unix epoch, a
  \<open>time.Duration\<close> a number of nanoseconds.\<close>
type_synonym Time = int
type_synonym Duration = int

type_synonym error = string

definition Millisecond :: int64 where
  "Millisecond = 1000000"

definition Hour :: Duration where
  "Hour = 3600000000000"

text \<open>Go's \<open>/\<close> on \<open>int64\<close> truncates towards zero (the one division of the
  source has the divisor 1000000).\<close>
definition int64_quo :: "int64 \<Rightarrow> int64 \<Rightarrow> int64" where
  "int64_quo a b = word_of_int (sint a sdiv sint b)"

text \<open>\<open>Time.UnixNano()\<close>: the instant as an \<open>int64\<close> (it wraps outside the years
  1678 to 2262, where Go leaves the result undefined).\<close>
definition UnixNano :: "Time \<Rightarrow> int64" where
  "UnixNano t = word_of_int t"

text \<open>\<open>time.Unix(sec, nsec)\<close>.\<close>
definition time_Unix :: "int64 \<Rightarrow> int64 \<Rightarrow> Time" where
  "time_Unix sec nsec = sint sec * 1000000000 + sint nsec"

text \<open>\<open>t.After(u)\<close>, \<open>t.Add(d)\<close> and \<open>t.Sub(u)\<close> on instants. Go's \<open>Sub\<close> stops at
  the largest duration, about 292 years; instants that far apart are left aside.\<close>
definition After :: "Time \<Rightarrow> Time \<Rightarrow> bool" where
  "After t u = (t > u)"

definition time_Add :: "Time \<Rightarrow> Duration \<Rightarrow> Time" where
  "time_Add t d = t + d"

definition time_Sub :: "Time \<Rightarrow> Time \<Rightarrow> Duration" where
  "time_Sub t u = t - u"

subsection \<open>Strings\<close>

text \<open>\<open>strings.HasSuffix\<close>.\<close>
definition HasSuffix :: "string \<Rightarrow> string \<Rightarrow> bool" where
  "HasSuffix s suffix =
     (length suffix \<le> length s \<and> drop (length s - length suffix) s = suffix)"

text \<open>\<open>strings.ReplaceAll(s, old, new)\<close>: every non-overlapping occurrence of \<open>old\<close>,
  found from left to right, is replaced by \<open>new\<close>. For an empty \<open>old\<close> Go inserts
  \<open>new\<close> before every character and at the end (characters are bytes here).\<close>
function ReplaceAll :: "string \<Rightarrow> string \<Rightarrow> string \<Rightarrow> string" where
  "ReplaceAll s old new =
     (if old = [] then new @ concat (map (\<lambda>c. c # new) s)
      else if s = [] then []
      else if take (length old) s = old
        then new @ ReplaceAll (drop (length old) s) old new
      else hd s # ReplaceAll (tl s) old new)"
  by pat_completeness auto
termination
  by (relation "measure (\<lambda>(s, old, new). length s)") auto

declare ReplaceAll.simps [simp del]

subsection \<open>Decoded metrics (\<open>client_model\<close>)\<close>

datatype MetricType = COUNTER | GAUGE | SUMMARY | UNTYPED | HISTOGRAM | GAUGE_HISTOGRAM

record LabelPair =
  Name :: "string option"
  Value :: "string option"

text \<open>A pointer field that may be \<open>nil\<close> is an option. \<open>Gauge\<close>, \<open>Counter\<close> and
  \<open>Untyped\<close> point to a message whose own \<open>Value\<close> field may be \<open>nil\<close> again.\<close>
record Metric =
  Label :: "LabelPair list"
  Gauge :: "float64 option option"
  Counter :: "float64 option option"
  Untyped :: "float64 option option"
  TimestampMs :: "int64 option"

record MetricFamily =
  Help :: "string option"
  Type :: "MetricType option"
  Metrics :: "Metric list"

definition GetName :: "LabelPair \<Rightarrow> string" where
  "GetName l = (case Name l of None \<Rightarrow> [] | Some s \<Rightarrow> s)"

definition GetValue :: "LabelPair \<Rightarrow> string" where
  "GetValue l = (case Value l of None \<Rightarrow> [] | Some s \<Rightarrow> s)"

text \<open>\<open>m.GetGauge().GetValue()\<close> and its siblings: 0 when either pointer is \<open>nil\<close>.\<close>
definition GetValue_of :: "float64 option option \<Rightarrow> float64" where
  "GetValue_of g = (case g of Some (Some v) \<Rightarrow> v | _ \<Rightarrow> 0)"

definition GetTimestampMs :: "Metric \<Rightarrow> int64" where
  "GetTimestampMs m = (case TimestampMs m of None \<Rightarrow> 0 | Some t \<Rightarrow> t)"

definition GetHelp :: "MetricFamily \<Rightarrow> string" where
  "GetHelp mf = (case Help mf of None \<Rightarrow> [] | Some s \<Rightarrow> s)"

definition GetType :: "MetricFamily \<Rightarrow> MetricType" where
  "GetType mf = (case Type mf of None \<Rightarrow> COUNTER | Some t \<Rightarrow> t)"

definition GetMetric :: "MetricFamily \<Rightarrow> Metric list" where
  "GetMetric mf = Metrics mf"

subsection \<open>The collector's interface, as \<open>main\<close> calls it\<close>

datatype ValueType = CounterValue | GaugeValue | UntypedValue

text \<open>A Go \<open>map[string]string\<close>, as the list of its entries with one entry per key;
  \<open>labels[k] = v\<close> is \<open>map_set\<close>.\<close>
type_synonym labels = "(string \<times> string) list"

fun map_set :: "labels \<Rightarrow> string \<Rightarrow> string \<Rightarrow> labels" where
  "map_set [] k v = [(k, v)]"
| "map_set ((k', v') # kvs) k v =
     (if k' = k then (k, v) # kvs else (k', v') # map_set kvs k v)"

text \<open>The seven arguments of one \<open>collector.Add\<close> call. The label map is recorded with
  the entries it has at the moment of the call.\<close>
record point =
  p_name :: string
  p_labels :: labels
  p_kind :: ValueType
  p_value :: float64
  p_timestamp :: Time
  p_arg6 :: int
  p_help :: string

subsection \<open>Trace and environment\<close>

datatype event =
    Log_Started
  | Log_DebugEnabled
  | Log_Found nat
  | Log_Processing nat nat string
  | Log_ErrStat nat nat string
  | Log_OldFile nat nat string
  | Log_Running nat nat string
  | Exec string
  | Log_ErrCmd nat nat string
  | Println_output string
  | Log_ErrParse nat nat string
  | Log_DataPoints nat nat int
  | Dbg_MetricName string
  | Dbg_MetricType MetricType
  | Dbg_MetricHelp string
  | Dbg_MetricValue float64
  | Dbg_Timestamp int64
  | Dbg_TimestampNow int64
  | Dbg_LabelName string
  | Dbg_LabelValue string
  | Dbg_Separator
  | Collector_Clear
  | Collector_Add point
  | Sleep Duration

record FileInfo =
  fi_Name :: string
  fi_IsDir :: bool
  fi_IsRegular :: bool
  fi_ModTime :: Time

text \<open>What one pass reads from outside the program. \<open>clock n\<close> is the result of the
  \<open>n\<close>-th call of \<open>time.Now()\<close>; \<open>cmd_Output\<close> is what \<open>sh -c\<close> prints for a command
  line and whether it failed; \<open>ReadDir\<close> gives, per entry, the result of \<open>entry.Info()\<close>;
  \<open>Clean_path\<close> is the path clean-up at the head of \<open>parseMF\<close>, \<open>Open\<close> and
  \<open>TextToMetricFamilies\<close> its two fallible steps. The decoded families are listed in
  the order in which \<open>range\<close> visits the map.\<close>
record env =
  clock :: "nat \<Rightarrow> Time"
  Stat :: "string \<Rightarrow> error + FileInfo"
  ReadDir :: "string \<Rightarrow> error + (error + FileInfo) list"
  Clean_path :: "string \<Rightarrow> string"
  Open :: "string \<Rightarrow> error + string"
  TextToMetricFamilies :: "string \<Rightarrow> error + (string \<times> MetricFamily) list"
  cmd_Output :: "string \<Rightarrow> string \<times> error option"

record config =
  optPromPath :: string
  optScanInterval :: Duration
  optMemoryMaxAge :: Duration
  optOldFilesAge :: Duration
  optOldFilesExternalCmd :: string

record scan_state =
  ticks :: nat
  trace :: "event list"

definition emit :: "event list \<Rightarrow> scan_state \<Rightarrow> scan_state" where
  "emit evs st = st\<lparr>trace := trace st @ evs\<rparr>"

definition emit_if :: "bool \<Rightarrow> event list \<Rightarrow> scan_state \<Rightarrow> scan_state" where
  "emit_if b evs st = (if b then emit evs st else st)"

definition time_Now :: "env \<Rightarrow> scan_state \<Rightarrow> Time \<times> scan_state" where
  "time_Now e st = (clock e (ticks st), st\<lparr>ticks := Suc (ticks st)\<rparr>)"

subsection \<open>\<open>parseMF\<close> and \<open>isOlderThanTwoHours\<close>\<close>

definition parseMF :: "env \<Rightarrow> string \<Rightarrow> error + (string \<times> MetricFamily) list" where
  "parseMF e path =
     (case Open e (Clean_path e path) of
        Inl err \<Rightarrow> Inl err
      | Inr reader \<Rightarrow>
          (case TextToMetricFamilies e reader of
             Inl err \<Rightarrow> Inl err
           | Inr mf \<Rightarrow> Inr mf))"

definition isOlderThanTwoHours :: "env \<Rightarrow> Time \<Rightarrow> scan_state \<Rightarrow> bool \<times> scan_state" where
  "isOlderThanTwoHours e t st =
     (case time_Now e st of (now, st') \<Rightarrow> (time_Sub now t > 2 * Hour, st'))"

subsection \<open>The loop over the metrics of one family\<close>

text \<open>The \<open>switch\<close> on the family's type: the value kind and the value for Gauge,
  Counter and Untyped, \<open>None\<close> where the source leaves the metric loop (\<open>break out\<close>).\<close>
definition switch_type :: "MetricFamily \<Rightarrow> Metric \<Rightarrow> (ValueType \<times> float64) option" where
  "switch_type mf m =
     (case GetType mf of
        GAUGE \<Rightarrow> Some (GaugeValue, GetValue_of (Gauge m))
      | COUNTER \<Rightarrow> Some (CounterValue, GetValue_of (Counter m))
      | SUMMARY \<Rightarrow> None
      | UNTYPED \<Rightarrow> Some (UntypedValue, GetValue_of (Untyped m))
      | HISTOGRAM \<Rightarrow> None
      | _ \<Rightarrow> None)"

text \<open>Lines 205 to 215: the timestamp of the metric, replaced by the clock's
  milliseconds when it is not positive.\<close>
definition handle_timestamp :: "env \<Rightarrow> bool \<Rightarrow> float64 \<Rightarrow> Metric \<Rightarrow> scan_state \<Rightarrow> int64 \<times> scan_state" where
  "handle_timestamp e debugging metric_value m st =
     (let timestamp = GetTimestampMs m;
          st1 = emit_if debugging [Dbg_MetricValue metric_value, Dbg_Timestamp timestamp] st
      in if sint timestamp \<le> 0
         then (case time_Now e st1 of (now, st2) \<Rightarrow>
                 (let timestamp' = int64_quo (UnixNano now) 1000000
                  in (timestamp', emit_if debugging [Dbg_TimestampNow timestamp'] st2)))
         else (timestamp, st1))"

text \<open>Lines 218 to 224: the metric's labels are written into the map \<open>labels\<close>.\<close>
fun handle_labels :: "bool \<Rightarrow> LabelPair list \<Rightarrow> labels \<Rightarrow> scan_state \<Rightarrow> labels \<times> scan_state" where
  "handle_labels debugging [] labels st = (labels, st)"
| "handle_labels debugging (label # rest) labels st =
     handle_labels debugging rest
       (map_set labels (GetName label) (GetValue label))
       (emit_if debugging [Dbg_LabelName (GetName label), Dbg_LabelValue (GetValue label)] st)"

text \<open>Lines 204 to 232: the body of the metric loop after the \<open>switch\<close>.\<close>
definition add_metric ::
  "env \<Rightarrow> bool \<Rightarrow> string \<Rightarrow> MetricFamily \<Rightarrow> Metric \<Rightarrow> ValueType \<Rightarrow> float64 \<Rightarrow>
   labels \<Rightarrow> scan_state \<Rightarrow> labels \<times> scan_state" where
  "add_metric e debugging name mf m metric_type metric_value labels st =
     (case handle_timestamp e debugging metric_value m st of (timestamp, st1) \<Rightarrow>
      case handle_labels debugging (Label m) labels st1 of (labels', st2) \<Rightarrow>
        (labels',
         emit_if debugging [Dbg_Separator]
           (emit [Collector_Add
                    \<lparr>p_name = name, p_labels = labels', p_kind = metric_type,
                     p_value = metric_value,
                     p_timestamp = time_Unix 0 (timestamp * Millisecond),
                     p_arg6 = 0, p_help = GetHelp mf\<rparr>] st2)))"

text \<open>Lines 185 to 233. \<open>labels\<close> and \<open>cnt\<close> are declared outside the loop and are
  carried from one metric to the next.\<close>
fun metric_loop ::
  "env \<Rightarrow> bool \<Rightarrow> string \<Rightarrow> MetricFamily \<Rightarrow> Metric list \<Rightarrow> labels \<Rightarrow> int \<Rightarrow> scan_state \<Rightarrow>
   int \<times> scan_state" where
  "metric_loop e debugging name mf [] labels cnt st = (cnt, st)"
| "metric_loop e debugging name mf (m # ms) labels cnt st =
     (case switch_type mf m of
        None \<Rightarrow> (cnt, st)
      | Some (metric_type, metric_value) \<Rightarrow>
          (case add_metric e debugging name mf m metric_type metric_value labels st of
             (labels', st') \<Rightarrow> metric_loop e debugging name mf ms labels' (cnt + 1) st'))"

text \<open>Lines 174 to 234: one fresh label map per family.\<close>
fun family_loop ::
  "env \<Rightarrow> bool \<Rightarrow> (string \<times> MetricFamily) list \<Rightarrow> int \<Rightarrow> scan_state \<Rightarrow> int \<times> scan_state" where
  "family_loop e debugging [] cnt st = (cnt, st)"
| "family_loop e debugging ((name, mf) # mfs) cnt st =
     (case metric_loop e debugging name mf (GetMetric mf) [] cnt
             (emit_if debugging
                [Dbg_MetricName name, Dbg_MetricType (GetType mf), Dbg_MetricHelp (GetHelp mf)] st) of
        (cnt', st') \<Rightarrow> family_loop e debugging mfs cnt' st')"

subsection \<open>The loop over the files\<close>

text \<open>Lines 141 to 238: the body of the file loop for the file \<open>f\<close> at index \<open>i\<close> of
  \<open>n\<close>. Each \<open>continue\<close> of the source ends the body. The \<open>Exec\<close> event is the call of
  \<open>cmd.Output()\<close>, which runs \<open>sh -c cmdString\<close> and waits for it.\<close>
definition process_file ::
  "env \<Rightarrow> config \<Rightarrow> bool \<Rightarrow> nat \<Rightarrow> nat \<Rightarrow> string \<Rightarrow> scan_state \<Rightarrow> scan_state" where
  "process_file e cfg debugging n i f st =
     (let printIt = (debugging \<or> int i < 5 \<or> int i \<ge> int n - 5);
          st1 = emit_if printIt [Log_Processing (i + 1) n f] st
      in case Stat e f of
           Inl err \<Rightarrow> emit [Log_ErrStat (i + 1) n f] st1
         | Inr fileinfo \<Rightarrow>
             (case time_Now e st1 of (now, st2) \<Rightarrow>
                if After now (time_Add (fi_ModTime fileinfo) (optOldFilesAge cfg))
                then (let cmdString = ReplaceAll (optOldFilesExternalCmd cfg) ''{}'' f
                      in case cmd_Output e cmdString of (cmdOut, err) \<Rightarrow>
                           emit [Println_output cmdOut]
                             (emit_if (err \<noteq> None) [Log_ErrCmd (i + 1) n cmdString]
                                (emit [Log_OldFile (i + 1) n f,
                                       Log_Running (i + 1) n cmdString,
                                       Exec cmdString] st2)))
                else (case parseMF e f of
                        Inl err \<Rightarrow> emit [Log_ErrParse (i + 1) n f] st2
                      | Inr mfs \<Rightarrow>
                          (case family_loop e debugging mfs 0 st2 of (cnt, st3) \<Rightarrow>
                             emit_if printIt [Log_DataPoints (i + 1) n cnt] st3))))"

fun files_loop ::
  "env \<Rightarrow> config \<Rightarrow> bool \<Rightarrow> nat \<Rightarrow> nat \<Rightarrow> string list \<Rightarrow> scan_state \<Rightarrow> scan_state" where
  "files_loop e cfg debugging n i [] st = st"
| "files_loop e cfg debugging n i (f # fs) st =
     files_loop e cfg debugging n (Suc i) fs (process_file e cfg debugging n i f st)"

subsection \<open>One pass of the scan loop\<close>

text \<open>Lines 115 to 127: the regular files named \<open>*.prom\<close> among the directory's entries.\<close>
fun collect_entries :: "string \<Rightarrow> (error + FileInfo) list \<Rightarrow> string list \<Rightarrow> string list" where
  "collect_entries filepath [] files = files"
| "collect_entries filepath (entry # entries) files =
     (case entry of
        Inl err \<Rightarrow> collect_entries filepath entries files
      | Inr fi \<Rightarrow>
          if fi_IsDir fi then collect_entries filepath entries files
          else if fi_IsRegular fi \<and> HasSuffix (fi_Name fi) ''.prom''
            then collect_entries filepath entries (files @ [filepath @ ''/'' @ fi_Name fi])
          else collect_entries filepath entries files)"

text \<open>Lines 108 to 130; \<open>Inl\<close> where the source leaves the scan loop.\<close>
definition list_files :: "env \<Rightarrow> string \<Rightarrow> FileInfo \<Rightarrow> error + string list" where
  "list_files e filepath fileinfo =
     (if fi_IsDir fileinfo
      then (case ReadDir e filepath of
              Inl err \<Rightarrow> Inl err
            | Inr entries \<Rightarrow> Inr (collect_entries filepath entries []))
      else Inr [filepath])"

text \<open>Lines 94 to 102: the debug switch.\<close>
definition debug_switch :: "env \<Rightarrow> string \<Rightarrow> scan_state \<Rightarrow> bool \<times> scan_state" where
  "debug_switch e filepath st =
     (case Stat e (filepath @ ''/debug_tfe'') of
        Inr fs \<Rightarrow>
          (case isOlderThanTwoHours e (fi_ModTime fs) st of (older, st') \<Rightarrow>
             (if \<not> older then (True, st') else (False, st')))
      | Inl err \<Rightarrow> (False, st))"

datatype loop_control = Break | Next_iteration

text \<open>Lines 84 to 239: the body of the \<open>for\<close> loop. \<open>Break\<close> is the source's
  \<open>break\<close>, which leaves the loop and with it the goroutine.\<close>
definition scan_pass :: "env \<Rightarrow> config \<Rightarrow> scan_state \<Rightarrow> loop_control \<times> scan_state" where
  "scan_pass e cfg st =
     (let filepath = optPromPath cfg
      in case Stat e filepath of
           Inl err \<Rightarrow> (Break, st)
         | Inr fileinfo \<Rightarrow>
             (case debug_switch e filepath st of (debugging, st1) \<Rightarrow>
                (let st2 = emit_if debugging [Log_DebugEnabled] st1
                 in case list_files e filepath fileinfo of
                      Inl err \<Rightarrow> (Break, st2)
                    | Inr files \<Rightarrow>
                        (let n = length files;
                             st3 = emit [Log_Found n, Collector_Clear] st2;
                             st4 = files_loop e cfg debugging n 0 files st3
                         in (Next_iteration, emit [Sleep (optScanInterval cfg)] st4)))))"

subsection \<open>The scan loop\<close>

datatype goroutine = Returned | Looping

text \<open>Lines 83 to 241. The loop has no exit but \<open>break\<close>; the list holds the
  environments that the first iterations meet, one per iteration, and \<open>Looping\<close> says
  that the loop is about to start a further iteration when the list is used up.\<close>
fun scan_loop :: "config \<Rightarrow> env list \<Rightarrow> scan_state \<Rightarrow> goroutine \<times> scan_state" where
  "scan_loop cfg [] st = (Looping, st)"
| "scan_loop cfg (e # es) st =
     (case scan_pass e cfg st of
        (Break, st') \<Rightarrow> (Returned, st')
      | (Next_iteration, st') \<Rightarrow> scan_loop cfg es st')"

text \<open>Lines 81 to 243: the goroutine.\<close>
definition scanner :: "config \<Rightarrow> env list \<Rightarrow> goroutine \<times> scan_state" where
  "scanner cfg es = scan_loop cfg es \<lparr>ticks = 0, trace = [Log_Started]\<rparr>"

subsection \<open>The collector\<close>

text \<open>Modelled from the spec: the collector type (\<open>newTimeAwareCollector\<close>, its methods
  \<open>Clear\<close> and \<open>Add\<close>, and the collection that serves a scrape) is defined in a file of
  the repository that is not among the sources. The spec describes it as a mapping
  from metric identity to the latest point, read through an age filter.\<close>
record collector =
  c_maxAge :: Duration
  c_points :: "point list"

text \<open>Modelled from the spec: the metric identity is the name plus the label set.\<close>
definition identity :: "point \<Rightarrow> string \<times> (string \<times> string) set" where
  "identity p = (p_name p, set (p_labels p))"

text \<open>Modelled from the spec: \<open>newTimeAwareCollector(maxAge)\<close> is an empty store.\<close>
definition newTimeAwareCollector :: "Duration \<Rightarrow> collector" where
  "newTimeAwareCollector maxAge = \<lparr>c_maxAge = maxAge, c_points = []\<rparr>"

text \<open>Modelled from the spec: \<open>Clear\<close> makes the collector empty (the source's comment at
  its call says so too).\<close>
definition Clear :: "collector \<Rightarrow> collector" where
  "Clear c = c\<lparr>c_points := []\<rparr>"

text \<open>Modelled from the spec: \<open>Add\<close> inserts the point, or overwrites the point that has
  the same identity; nothing is filtered at write time.\<close>
definition Add :: "point \<Rightarrow> collector \<Rightarrow> collector" where
  "Add p c = c\<lparr>c_points := filter (\<lambda>q. identity q \<noteq> identity p) (c_points c) @ [p]\<rparr>"

text \<open>Modelled from the spec: a collection at the instant \<open>now\<close> returns the points with
  \<open>now - timestamp \<le> maxAge\<close>.\<close>
definition Snapshot :: "Time \<Rightarrow> collector \<Rightarrow> point list" where
  "Snapshot now c = filter (\<lambda>p. now - p_timestamp p \<le> c_maxAge c) (c_points c)"

text \<open>The collector after the calls that a trace holds, in order.\<close>
fun apply_event :: "collector \<Rightarrow> event \<Rightarrow> collector" where
  "apply_event c Collector_Clear = Clear c"
| "apply_event c (Collector_Add p) = Add p c"
| "apply_event c _ = c"

definition replay :: "event list \<Rightarrow> collector \<Rightarrow> collector" where
  "replay tr c = foldl apply_event c tr"

subsection \<open>Reading a trace\<close>

text \<open>The points handed to \<open>collector.Add\<close> in a trace, and the command lines run.\<close>
fun added_of :: "event \<Rightarrow> point list" where
  "added_of (Collector_Add p) = [p]"
| "added_of _ = []"

definition added_points :: "event list \<Rightarrow> point list" where
  "added_points tr = concat (map added_of tr)"

fun exec_of :: "event \<Rightarrow> string list" where
  "exec_of (Exec c) = [c]"
| "exec_of _ = []"

definition executed :: "event list \<Rightarrow> string list" where
  "executed tr = concat (map exec_of tr)"

fun is_collector_call :: "event \<Rightarrow> bool" where
  "is_collector_call Collector_Clear = True"
| "is_collector_call (Collector_Add p) = True"
| "is_collector_call _ = False"

fun is_clear :: "event \<Rightarrow> bool" where
  "is_clear Collector_Clear = True"
| "is_clear _ = False"

text \<open>\<open>labels[k] = v\<close> for the labels of one metric, in order (lines 218 to 224
  without the debug output).\<close>
definition set_labels :: "labels \<Rightarrow> LabelPair list \<Rightarrow> labels" where
  "set_labels labels ls = foldl (\<lambda>l lp. map_set l (GetName lp) (GetValue lp)) labels ls"

text \<open>The clock reading in whole milliseconds, as an instant (line 211 into line 227).\<close>
definition now_ms :: "Time \<Rightarrow> Time" where
  "now_ms t = time_Unix 0 (int64_quo (UnixNano t) 1000000 * Millisecond)"

subsection \<open>Collections that run while a pass runs\<close>

text \<open>What one pass appends to the trace, and the collector that a collection finds
  when it runs after the first \<open>k\<close> steps of the pass, \<open>c\<close> being the collector the
  pass starts with. A scrape is served by another goroutine, so a collection can fall
  between any two steps of the scan loop; each call of the collector is taken as one
  step.\<close>
definition pass_events :: "env \<Rightarrow> config \<Rightarrow> scan_state \<Rightarrow> event list" where
  "pass_events e cfg st = drop (length (trace st)) (trace (snd (scan_pass e cfg st)))"

definition visible :: "event list \<Rightarrow> collector \<Rightarrow> nat \<Rightarrow> collector" where
  "visible evs c k = replay (take k evs) c"

subsection \<open>A concrete directory\<close>

text \<open>A directory \<open>/m\<close> with an old file, a file that does not parse, a subdirectory,
  a file that is not named \<open>*.prom\<close>, an entry whose \<open>Info()\<close> fails and a file with
  three metric families; and the same world with the directory missing.\<close>
definition ex_clock :: "nat \<Rightarrow> Time" where
  "ex_clock n = 1700000000123456789 + int n"

definition ex_metric :: "float64 \<Rightarrow> (string \<times> string) list \<Rightarrow> int64 option \<Rightarrow> Metric" where
  "ex_metric v ls ts =
     \<lparr>Label = map (\<lambda>(k, w). \<lparr>Name = Some k, Value = Some w\<rparr>) ls,
      Gauge = Some (Some v), Counter = Some (Some v), Untyped = Some (Some v),
      TimestampMs = ts\<rparr>"

definition ex_family :: "MetricType \<Rightarrow> Metric list \<Rightarrow> MetricFamily" where
  "ex_family ty ms = \<lparr>Help = Some ''help'', Type = Some ty, Metrics = ms\<rparr>"

definition ex_file :: "string \<Rightarrow> Time \<Rightarrow> FileInfo" where
  "ex_file name mtime = \<lparr>fi_Name = name, fi_IsDir = False, fi_IsRegular = True, fi_ModTime = mtime\<rparr>"

definition ex_dir :: "string \<Rightarrow> FileInfo" where
  "ex_dir name = \<lparr>fi_Name = name, fi_IsDir = True, fi_IsRegular = False, fi_ModTime = 1700000000000000000\<rparr>"

definition ex_env :: env where
  "ex_env =
     \<lparr>clock = ex_clock,
      Stat = (\<lambda>p. if p = ''/m'' then Inr (ex_dir ''m'')
                  else if p = ''/m/a.prom'' then Inr (ex_file ''a.prom'' 1700000000000000000)
                  else if p = ''/m/bad.prom'' then Inr (ex_file ''bad.prom'' 1700000000000000000)
                  else if p = ''/m/old.prom'' then Inr (ex_file ''old.prom'' 1600000000000000000)
                  else Inl ''no such file or directory''),
      ReadDir = (\<lambda>p. if p = ''/m''
                  then Inr [Inr (ex_file ''old.prom'' 1600000000000000000),
                            Inr (ex_file ''bad.prom'' 1700000000000000000),
                            Inr (ex_dir ''sub.prom''),
                            Inr (ex_file ''notes.txt'' 1700000000000000000),
                            Inl ''entry vanished'',
                            Inr (ex_file ''a.prom'' 1700000000000000000)]
                  else Inl ''not a directory''),
      Clean_path = (\<lambda>p. p),
      Open = (\<lambda>p. if p = ''/m/a.prom'' \<or> p = ''/m/bad.prom'' then Inr p else Inl ''cannot open''),
      TextToMetricFamilies = (\<lambda>r. if r = ''/m/a.prom''
                  then Inr [(''x'', ex_family GAUGE [ex_metric 2 [] None]),
                            (''h'', ex_family HISTOGRAM [ex_metric 7 [] None]),
                            (''y'', ex_family COUNTER [ex_metric 5 [] None])]
                  else Inl ''text format parsing error''),
      cmd_Output = (\<lambda>c. (''listing'', None))\<rparr>"

definition ex_missing :: env where
  "ex_missing = ex_env\<lparr>Stat := (\<lambda>p. Inl ''no such file or directory'')\<rparr>"

definition ex_unreadable :: env where
  "ex_unreadable = ex_env\<lparr>ReadDir := (\<lambda>p. Inl ''permission denied'')\<rparr>"

definition ex_cfg :: config where
  "ex_cfg = \<lparr>optPromPath = ''/m'', optScanInterval = 30000000000,
             optMemoryMaxAge = 25 * Hour, optOldFilesAge = 6 * Hour,
             optOldFilesExternalCmd = ''ls -l {}''\<rparr>"

definition ex_state :: scan_state where
  "ex_state = \<lparr>ticks = 0, trace = [Log_Started]\<rparr>"

text \<open>A point of the series \<open>x\<close>, and the collector left by an earlier pass that
  found \<open>x\<close> with the value 1.\<close>
definition ex_point :: "float64 \<Rightarrow> Time \<Rightarrow> point" where
  "ex_point v t = \<lparr>p_name = ''x'', p_labels = [], p_kind = GaugeValue, p_value = v,
                  p_timestamp = t, p_arg6 = 0, p_help = ''help''\<rparr>"

definition ex_prev :: collector where
  "ex_prev = Add (ex_point 1 1700000000000000000) (newTimeAwareCollector (25 * Hour))"

section \<open>Properties\<close>

subsection \<open>What each step appends to the trace\<close>

lemma added_points_append [simp]:
  "added_points (xs @ ys) = added_points xs @ added_points ys"
  by (simp add: added_points_def)

lemma added_points_Nil [simp]: "added_points [] = []"
  by (simp add: added_points_def)

lemma added_points_Cons: "added_points (ev # tr) = added_of ev @ added_points tr"
  by (simp add: added_points_def)

lemma executed_append [simp]: "executed (xs @ ys) = executed xs @ executed ys"
  by (simp add: executed_def)

lemma executed_Nil [simp]: "executed [] = []"
  by (simp add: executed_def)

lemma executed_Cons: "executed (ev # tr) = exec_of ev @ executed tr"
  by (simp add: executed_def)

lemma emit_ticks [simp]: "ticks (emit evs st) = ticks st"
  by (simp add: emit_def)

lemma emit_trace [simp]: "trace (emit evs st) = trace st @ evs"
  by (simp add: emit_def)

lemma emit_if_ticks [simp]: "ticks (emit_if b evs st) = ticks st"
  by (simp add: emit_if_def)

lemma emit_if_trace [simp]: "trace (emit_if b evs st) = trace st @ (if b then evs else [])"
  by (simp add: emit_if_def)

lemma handle_labels_fst: "fst (handle_labels dbg ls labels st) = set_labels labels ls"
  by (induction ls arbitrary: labels st) (simp_all add: set_labels_def)

lemma handle_labels_ticks: "ticks (snd (handle_labels dbg ls labels st)) = ticks st"
  by (induction ls arbitrary: labels st) simp_all

lemma handle_labels_trace:
  "\<exists>evs. trace (snd (handle_labels dbg ls labels st)) = trace st @ evs
         \<and> added_points evs = [] \<and> executed evs = [] \<and> \<not> list_ex is_collector_call evs"
proof (induction ls arbitrary: labels st)
  case Nil
  show ?case by simp
next
  case (Cons l ls)
  let ?st = "emit_if dbg [Dbg_LabelName (GetName l), Dbg_LabelValue (GetValue l)] st"
  from Cons [of "map_set labels (GetName l) (GetValue l)" ?st]
  obtain evs where evs:
    "trace (snd (handle_labels dbg ls (map_set labels (GetName l) (GetValue l)) ?st)) = trace ?st @ evs"
    "added_points evs = []" "executed evs = []" "\<not> list_ex is_collector_call evs"
    by blast
  show ?case
  proof (intro exI conjI)
    show "trace (snd (handle_labels dbg (l # ls) labels st)) =
            trace st @ ((if dbg then [Dbg_LabelName (GetName l), Dbg_LabelValue (GetValue l)] else []) @ evs)"
      using evs(1) by simp
  qed (use evs in \<open>simp_all add: added_points_Cons executed_Cons\<close>)
qed

subsection \<open>Milliseconds and nanoseconds\<close>

lemma sint_int64_of_int:
  "- (2 ^ 63) \<le> k \<Longrightarrow> k < 2 ^ 63 \<Longrightarrow> sint (word_of_int k :: int64) = k"
  by (simp add: sint_sbintrunc' signed_take_bit_int_eq_self)

lemma sdiv_nonneg: "0 \<le> (t::int) \<Longrightarrow> t sdiv 1000000 = t div 1000000"
  by (cases "t = 0") (simp_all add: signed_divide_int_def)

lemma ms_window:
  fixes t :: int
  shows "t - 1000000 < (t div 1000000) * 1000000 \<and> (t div 1000000) * 1000000 \<le> t"
proof -
  have "t div 1000000 * 1000000 + t mod 1000000 = t"
    by (rule div_mult_mod_eq)
  moreover have "0 \<le> t mod 1000000" by (rule pos_mod_sign) simp
  moreover have "t mod 1000000 < 1000000" by (rule pos_mod_bound) simp
  ultimately show ?thesis by linarith
qed

lemma now_ms_eq:
  assumes "0 \<le> t" "t < 2 ^ 63"
  shows "now_ms t = (t div 1000000) * 1000000"
proof -
  have a: "sint (word_of_int t :: int64) = t"
    using assms by (intro sint_int64_of_int) simp_all
  have b: "int64_quo (UnixNano t) 1000000 = word_of_int (t div 1000000)"
    using assms by (simp add: int64_quo_def UnixNano_def a sdiv_nonneg)
  have c: "(t div 1000000) * 1000000 \<le> t"
    using ms_window [of t] by simp
  have "0 \<le> t div 1000000"
    using assms by (simp add: pos_imp_zdiv_nonneg_iff)
  then have d: "0 \<le> (t div 1000000) * 1000000"
    by simp
  have "word_of_int (t div 1000000) * Millisecond = (word_of_int ((t div 1000000) * 1000000) :: int64)"
    by (simp add: Millisecond_def)
  moreover have "sint (word_of_int ((t div 1000000) * 1000000) :: int64) = (t div 1000000) * 1000000"
    using c d assms by (intro sint_int64_of_int) linarith+
  ultimately show ?thesis using b by (simp add: now_ms_def time_Unix_def)
qed

lemma kept_ms:
  assumes "0 < sint (t :: int64)" "sint t \<le> 9223372036854"
  shows "time_Unix 0 (t * Millisecond) = sint t * 1000000"
proof -
  have "t * Millisecond = word_of_int (sint t * 1000000)"
    by (simp add: Millisecond_def)
  moreover have "sint (word_of_int (sint t * 1000000) :: int64) = sint t * 1000000"
  proof (rule sint_int64_of_int)
    show "- (2 ^ 63) \<le> sint t * 1000000"
      using assms by simp
    have "sint t * 1000000 \<le> 9223372036854 * 1000000"
      using assms by simp
    then show "sint t * 1000000 < 2 ^ 63"
      by simp
  qed
  ultimately show ?thesis by (simp add: time_Unix_def)
qed

subsection \<open>The body of the metric loop\<close>

lemma handle_timestamp_fst:
  "fst (handle_timestamp e dbg v m st) =
     (if sint (GetTimestampMs m) \<le> 0 then int64_quo (UnixNano (clock e (ticks st))) 1000000
      else GetTimestampMs m)"
  by (simp add: handle_timestamp_def Let_def time_Now_def)

lemma handle_timestamp_ticks:
  "ticks (snd (handle_timestamp e dbg v m st)) =
     (if sint (GetTimestampMs m) \<le> 0 then Suc (ticks st) else ticks st)"
  by (simp add: handle_timestamp_def Let_def time_Now_def)

lemma handle_timestamp_trace:
  "\<exists>evs. trace (snd (handle_timestamp e dbg v m st)) = trace st @ evs
         \<and> added_points evs = [] \<and> executed evs = [] \<and> \<not> list_ex is_collector_call evs"
  by (cases dbg) (simp_all add: handle_timestamp_def Let_def time_Now_def added_points_Cons executed_Cons)

lemma no_call_no_clear: "\<not> list_ex is_collector_call evs \<Longrightarrow> \<not> list_ex is_clear evs"
  by (induction evs) (auto elim: is_clear.elims)

lemma add_metric_fst: "fst (add_metric e dbg name mf m ty v labels st) = set_labels labels (Label m)"
  by (simp add: add_metric_def split_beta handle_labels_fst)

lemma add_metric_ticks:
  "ticks (snd (add_metric e dbg name mf m ty v labels st)) =
     (if sint (GetTimestampMs m) \<le> 0 then Suc (ticks st) else ticks st)"
  by (simp add: add_metric_def split_beta handle_labels_ticks handle_timestamp_ticks)

lemma add_metric_trace:
  "\<exists>evs. trace (snd (add_metric e dbg name mf m ty v labels st)) = trace st @ evs
         \<and> added_points evs =
             [\<lparr>p_name = name, p_labels = set_labels labels (Label m), p_kind = ty, p_value = v,
               p_timestamp = time_Unix 0 (fst (handle_timestamp e dbg v m st) * Millisecond),
               p_arg6 = 0, p_help = GetHelp mf\<rparr>]
         \<and> executed evs = [] \<and> \<not> list_ex is_clear evs"
proof -
  obtain ts st1 where h1: "handle_timestamp e dbg v m st = (ts, st1)"
    by (cases "handle_timestamp e dbg v m st")
  obtain ls st2 where h2: "handle_labels dbg (Label m) labels st1 = (ls, st2)"
    by (cases "handle_labels dbg (Label m) labels st1")
  from handle_timestamp_trace [of e dbg v m st] h1
  obtain evs1 where evs1: "trace st1 = trace st @ evs1" "added_points evs1 = []"
    "executed evs1 = []" "\<not> list_ex is_collector_call evs1"
    by auto
  from handle_labels_trace [of dbg "Label m" labels st1] h2
  obtain evs2 where evs2: "trace st2 = trace st1 @ evs2" "added_points evs2 = []"
    "executed evs2 = []" "\<not> list_ex is_collector_call evs2"
    by auto
  have ls: "ls = set_labels labels (Label m)"
    using handle_labels_fst [of dbg "Label m" labels st1] h2 by simp
  have ts: "ts = fst (handle_timestamp e dbg v m st)"
    using h1 by simp
  let ?p = "\<lparr>p_name = name, p_labels = ls, p_kind = ty, p_value = v,
             p_timestamp = time_Unix 0 (ts * Millisecond), p_arg6 = 0, p_help = GetHelp mf\<rparr>"
  let ?evs = "evs1 @ evs2 @ [Collector_Add ?p] @ (if dbg then [Dbg_Separator] else [])"
  have "trace (snd (add_metric e dbg name mf m ty v labels st)) = trace st @ ?evs"
    by (simp add: add_metric_def h1 h2 evs1(1) evs2(1))
  moreover have "added_points ?evs = [?p]"
    by (simp add: evs1 evs2 added_points_Cons)
  moreover have "executed ?evs = []"
    by (simp add: evs1 evs2 executed_Cons)
  moreover have "\<not> list_ex is_clear ?evs"
    using no_call_no_clear [OF evs1(4)] no_call_no_clear [OF evs2(4)] by simp
  ultimately show ?thesis
    unfolding ls ts by blast
qed

lemma add_metric_timestamps:
  "map p_timestamp (added_points (trace (snd (add_metric e dbg name mf m ty v labels st)))) =
     map p_timestamp (added_points (trace st)) @
       [time_Unix 0 (fst (handle_timestamp e dbg v m st) * Millisecond)]"
proof -
  from add_metric_trace [of e dbg name mf m ty v labels st]
  obtain evs where "trace (snd (add_metric e dbg name mf m ty v labels st)) = trace st @ evs"
    and "map p_timestamp (added_points evs) =
           [time_Unix 0 (fst (handle_timestamp e dbg v m st) * Millisecond)]"
    by force
  then show ?thesis by simp
qed

text \<open>The definitions that evaluate the model on the concrete directory.\<close>
lemmas eval_defs = add_metric_def handle_timestamp_def time_Now_def ex_env_def ex_clock_def
  int64_quo_def UnixNano_def signed_divide_int_def Millisecond_def time_Unix_def
  ex_metric_def ex_family_def ex_state_def GetTimestampMs_def GetHelp_def GetName_def GetValue_def
  added_points_def emit_def emit_if_def Let_def

lemmas eval_file_defs = process_file_def parseMF_def ex_cfg_def ex_file_def Hour_def After_def time_Add_def
  GetMetric_def switch_type_def GetType_def GetValue_of_def

lemma ReplaceAll_example: "ReplaceAll ''ls -l {}'' ''{}'' ''/m/old.prom'' = ''ls -l /m/old.prom''"
  by (simp add: ReplaceAll.simps)

subsection \<open>Timestamps\<close>

text \<open>C10: a metric that carries an explicit timestamp of zero or less milliseconds is
  treated as a metric without timestamp: the point handed to the collector is the same
  point and the clock is read once; for a clock between 1970 and 2262 the point's
  timestamp is the clock reading taken at that moment, cut to whole milliseconds.\<close>
theorem nonpositive_timestamp_is_replaced:
  assumes "TimestampMs m = Some t" and "sint t \<le> 0"
  shows "added_points (trace (snd (add_metric e dbg name mf m ty v labels st))) =
           added_points (trace (snd (add_metric e dbg name mf (m\<lparr>TimestampMs := None\<rparr>) ty v labels st)))
       \<and> ticks (snd (add_metric e dbg name mf m ty v labels st)) = Suc (ticks st)
       \<and> (0 \<le> clock e (ticks st) \<and> clock e (ticks st) < 2 ^ 63 \<longrightarrow>
            map p_timestamp (added_points (trace (snd (add_metric e dbg name mf m ty v labels st)))) =
              map p_timestamp (added_points (trace st)) @ [clock e (ticks st) div 1000000 * 1000000]
            \<and> clock e (ticks st) - 1000000 < clock e (ticks st) div 1000000 * 1000000
            \<and> clock e (ticks st) div 1000000 * 1000000 \<le> clock e (ticks st))"
proof -
  let ?m' = "m\<lparr>TimestampMs := None\<rparr>"
  have g: "sint (GetTimestampMs m) \<le> 0" "sint (GetTimestampMs ?m') \<le> 0"
    using assms by (simp_all add: GetTimestampMs_def)
  have f: "fst (handle_timestamp e dbg v m st) = int64_quo (UnixNano (clock e (ticks st))) 1000000"
          "fst (handle_timestamp e dbg v ?m' st) = int64_quo (UnixNano (clock e (ticks st))) 1000000"
    using g by (simp_all add: handle_timestamp_fst)
  from add_metric_trace [of e dbg name mf m ty v labels st]
  obtain evs where evs: "trace (snd (add_metric e dbg name mf m ty v labels st)) = trace st @ evs"
    "added_points evs =
       [\<lparr>p_name = name, p_labels = set_labels labels (Label m), p_kind = ty, p_value = v,
         p_timestamp = now_ms (clock e (ticks st)), p_arg6 = 0, p_help = GetHelp mf\<rparr>]"
    unfolding f now_ms_def by blast
  from add_metric_trace [of e dbg name mf ?m' ty v labels st]
  obtain evs' where evs': "trace (snd (add_metric e dbg name mf ?m' ty v labels st)) = trace st @ evs'"
    "added_points evs' =
       [\<lparr>p_name = name, p_labels = set_labels labels (Label m), p_kind = ty, p_value = v,
         p_timestamp = now_ms (clock e (ticks st)), p_arg6 = 0, p_help = GetHelp mf\<rparr>]"
    unfolding f now_ms_def by auto
  have same: "added_points (trace (snd (add_metric e dbg name mf m ty v labels st))) =
           added_points (trace (snd (add_metric e dbg name mf ?m' ty v labels st)))"
    by (simp add: evs evs')
  have tick: "ticks (snd (add_metric e dbg name mf m ty v labels st)) = Suc (ticks st)"
    using g(1) by (simp add: add_metric_ticks)
  have val: "map p_timestamp (added_points (trace (snd (add_metric e dbg name mf m ty v labels st)))) =
              map p_timestamp (added_points (trace st)) @ [clock e (ticks st) div 1000000 * 1000000]"
    if "0 \<le> clock e (ticks st)" "clock e (ticks st) < 2 ^ 63"
    using now_ms_eq [OF that] by (simp add: evs)
  show ?thesis
    using same tick val ms_window [of "clock e (ticks st)"] by blast
qed

theorem nonpositive_timestamp_is_replaced_witness:
  "TimestampMs (ex_metric 1 [] (Some (- 5))) = Some (- 5) \<and> sint (- 5 :: int64) \<le> 0
   \<and> clock ex_env (ticks ex_state) = 1700000000123456789
   \<and> 0 \<le> clock ex_env (ticks ex_state) \<and> clock ex_env (ticks ex_state) < 2 ^ 63
   \<and> added_points (trace (snd (add_metric ex_env False ''x'' (ex_family GAUGE []) (ex_metric 1 [] (Some (- 5))) GaugeValue 1 [] ex_state))) =
       added_points (trace (snd (add_metric ex_env False ''x'' (ex_family GAUGE []) ((ex_metric 1 [] (Some (- 5)))\<lparr>TimestampMs := None\<rparr>) GaugeValue 1 [] ex_state)))
   \<and> map p_timestamp (added_points (trace (snd (add_metric ex_env False ''x'' (ex_family GAUGE []) (ex_metric 1 [] (Some (- 5))) GaugeValue 1 [] ex_state)))) =
       [1700000000123000000]
   \<and> ticks (snd (add_metric ex_env False ''x'' (ex_family GAUGE []) (ex_metric 1 [] (Some (- 5))) GaugeValue 1 [] ex_state)) = 1"
proof -
  have h1: "TimestampMs (ex_metric 1 [] (Some (- 5))) = Some (- 5)"
    by (simp add: ex_metric_def)
  have h2: "sint (- 5 :: int64) \<le> 0"
    by simp
  have c: "clock ex_env (ticks ex_state) = 1700000000123456789"
    by (simp add: ex_env_def ex_clock_def ex_state_def)
  have r: "0 \<le> clock ex_env (ticks ex_state)" "clock ex_env (ticks ex_state) < 2 ^ 63"
    by (simp_all add: c)
  have v: "clock ex_env (ticks ex_state) div 1000000 * 1000000 = 1700000000123000000"
    by (simp add: c)
  have a: "added_points (trace ex_state) = []" "ticks ex_state = 0"
    by (simp_all add: ex_state_def added_points_Cons)
  note inst = nonpositive_timestamp_is_replaced [OF h1 h2, of ex_env False "''x''" "ex_family GAUGE []"
      GaugeValue 1 "[]" ex_state]
  have pre: "map p_timestamp (added_points (trace (snd (add_metric ex_env False ''x'' (ex_family GAUGE []) (ex_metric 1 [] (Some (- 5))) GaugeValue 1 [] ex_state)))) =
       map p_timestamp (added_points (trace ex_state)) @ [clock ex_env (ticks ex_state) div 1000000 * 1000000]"
    using inst r by blast
  have tk: "ticks (snd (add_metric ex_env False ''x'' (ex_family GAUGE []) (ex_metric 1 [] (Some (- 5))) GaugeValue 1 [] ex_state)) = Suc (ticks ex_state)"
    using inst by blast
  have "map p_timestamp (added_points (trace (snd (add_metric ex_env False ''x'' (ex_family GAUGE []) (ex_metric 1 [] (Some (- 5))) GaugeValue 1 [] ex_state)))) =
       [1700000000123000000]"
    unfolding pre v a(1) by simp
  moreover have "ticks (snd (add_metric ex_env False ''x'' (ex_family GAUGE []) (ex_metric 1 [] (Some (- 5))) GaugeValue 1 [] ex_state)) = 1"
    unfolding tk a(2) by simp
  ultimately show ?thesis
    using inst h1 h2 c r by blast
qed

text \<open>C4, as the code has it: a metric without timestamp gets the clock reading taken
  at that metric, cut to whole milliseconds, which is at most one millisecond before
  the reading (for a clock between 1970 and 2262, where the reading fits \<open>int64\<close>
  nanoseconds). A metric that carries a timestamp keeps it when the timestamp is
  greater than zero (and at most 9223372036854 ms, so that the \<open>int64\<close> product of
  line 227 does not wrap); a carried timestamp of zero or less is replaced by the
  clock reading.\<close>
theorem timestamp_defaulted_or_kept:
  assumes "0 \<le> clock e (ticks st)" and "clock e (ticks st) < 2 ^ 63"
  shows "(TimestampMs m = None \<longrightarrow>
            map p_timestamp (added_points (trace (snd (add_metric e dbg name mf m ty v labels st)))) =
              map p_timestamp (added_points (trace st)) @ [clock e (ticks st) div 1000000 * 1000000]
            \<and> clock e (ticks st) - 1000000 < clock e (ticks st) div 1000000 * 1000000
            \<and> clock e (ticks st) div 1000000 * 1000000 \<le> clock e (ticks st))
       \<and> (\<forall>t. TimestampMs m = Some t \<longrightarrow> 0 < sint t \<longrightarrow> sint t \<le> 9223372036854 \<longrightarrow>
            map p_timestamp (added_points (trace (snd (add_metric e dbg name mf m ty v labels st)))) =
              map p_timestamp (added_points (trace st)) @ [sint t * 1000000])
       \<and> (\<forall>t. TimestampMs m = Some t \<longrightarrow> sint t \<le> 0 \<longrightarrow>
            map p_timestamp (added_points (trace (snd (add_metric e dbg name mf m ty v labels st)))) =
              map p_timestamp (added_points (trace st)) @ [clock e (ticks st) div 1000000 * 1000000])"
proof (intro conjI allI impI)
  assume "TimestampMs m = None"
  then have "fst (handle_timestamp e dbg v m st) = int64_quo (UnixNano (clock e (ticks st))) 1000000"
    by (simp add: handle_timestamp_fst GetTimestampMs_def)
  then show "map p_timestamp (added_points (trace (snd (add_metric e dbg name mf m ty v labels st)))) =
          map p_timestamp (added_points (trace st)) @ [clock e (ticks st) div 1000000 * 1000000]"
    using now_ms_eq [OF assms] by (simp add: add_metric_timestamps now_ms_def)
next
  show "clock e (ticks st) - 1000000 < clock e (ticks st) div 1000000 * 1000000"
    using ms_window [of "clock e (ticks st)"] by simp
next
  show "clock e (ticks st) div 1000000 * 1000000 \<le> clock e (ticks st)"
    using ms_window [of "clock e (ticks st)"] by simp
next
  fix t
  assume t: "TimestampMs m = Some t" "0 < sint t" "sint t \<le> 9223372036854"
  then have "fst (handle_timestamp e dbg v m st) = t"
    by (simp add: handle_timestamp_fst GetTimestampMs_def)
  then show "map p_timestamp (added_points (trace (snd (add_metric e dbg name mf m ty v labels st)))) =
          map p_timestamp (added_points (trace st)) @ [sint t * 1000000]"
    using kept_ms [OF t(2,3)] by (simp add: add_metric_timestamps)
next
  fix t
  assume "TimestampMs m = Some t" "sint t \<le> 0"
  then have "fst (handle_timestamp e dbg v m st) = int64_quo (UnixNano (clock e (ticks st))) 1000000"
    by (simp add: handle_timestamp_fst GetTimestampMs_def)
  then show "map p_timestamp (added_points (trace (snd (add_metric e dbg name mf m ty v labels st)))) =
          map p_timestamp (added_points (trace st)) @ [clock e (ticks st) div 1000000 * 1000000]"
    using now_ms_eq [OF assms] by (simp add: add_metric_timestamps now_ms_def)
qed

theorem timestamp_defaulted_or_kept_witness:
  "0 \<le> clock ex_env (ticks ex_state) \<and> clock ex_env (ticks ex_state) < 2 ^ 63
   \<and> TimestampMs (ex_metric 1 [] None) = None
   \<and> map p_timestamp (added_points (trace (snd
        (add_metric ex_env False ''x'' (ex_family GAUGE []) (ex_metric 1 [] None) GaugeValue 1 [] ex_state)))) =
      [1700000000123000000]
   \<and> TimestampMs (ex_metric 1 [] (Some 1600000000000)) = Some 1600000000000
   \<and> 0 < sint (1600000000000 :: int64) \<and> sint (1600000000000 :: int64) \<le> 9223372036854
   \<and> map p_timestamp (added_points (trace (snd
        (add_metric ex_env False ''x'' (ex_family GAUGE []) (ex_metric 1 [] (Some 1600000000000)) GaugeValue 1 [] ex_state)))) =
      [1600000000000000000]
   \<and> TimestampMs (ex_metric 1 [] (Some 0)) = Some 0 \<and> sint (0 :: int64) \<le> 0
   \<and> map p_timestamp (added_points (trace (snd
        (add_metric ex_env False ''x'' (ex_family GAUGE []) (ex_metric 1 [] (Some 0)) GaugeValue 1 [] ex_state)))) =
      [1700000000123000000]"
proof -
  have c: "0 \<le> clock ex_env (ticks ex_state)" "clock ex_env (ticks ex_state) < 2 ^ 63"
    by (simp_all add: ex_env_def ex_clock_def ex_state_def)
  have v: "clock ex_env (ticks ex_state) div 1000000 * 1000000 = 1700000000123000000"
    by (simp add: ex_env_def ex_clock_def ex_state_def)
  have a: "added_points (trace ex_state) = []"
    by (simp add: ex_state_def added_points_Cons)
  have m1: "TimestampMs (ex_metric 1 [] None) = None"
    and m2: "TimestampMs (ex_metric 1 [] (Some 1600000000000)) = Some 1600000000000"
    and m3: "TimestampMs (ex_metric 1 [] (Some 0)) = Some 0"
    by (simp_all add: ex_metric_def)
  have s: "0 < sint (1600000000000 :: int64)" "sint (1600000000000 :: int64) \<le> 9223372036854"
    "sint (0 :: int64) \<le> 0"
    by simp_all
  note inst = timestamp_defaulted_or_kept [OF c, of _ False "''x''" "ex_family GAUGE []" GaugeValue 1 "[]"]
  have "map p_timestamp (added_points (trace (snd
        (add_metric ex_env False ''x'' (ex_family GAUGE []) (ex_metric 1 [] None) GaugeValue 1 [] ex_state)))) =
      [1700000000123000000]"
    using inst [of "ex_metric 1 [] None"] m1 v a by simp
  moreover have "map p_timestamp (added_points (trace (snd
        (add_metric ex_env False ''x'' (ex_family GAUGE []) (ex_metric 1 [] (Some 1600000000000)) GaugeValue 1 [] ex_state)))) =
      [1600000000000000000]"
    using inst [of "ex_metric 1 [] (Some 1600000000000)"] m2 s a by simp
  moreover have "map p_timestamp (added_points (trace (snd
        (add_metric ex_env False ''x'' (ex_family GAUGE []) (ex_metric 1 [] (Some 0)) GaugeValue 1 [] ex_state)))) =
      [1700000000123000000]"
    using inst [of "ex_metric 1 [] (Some 0)"] m3 s v a by simp
  ultimately show ?thesis
    using c m1 m2 m3 s by blast
qed

text \<open>C4, as the claim states it, fails: a metric that carries the timestamp
  \<open>-5\<close> ms does not keep it. The point gets the clock's 1700000000123 ms, where
  keeping it would give \<open>-5000000\<close> ns. Nor is the timestamp 9223372036855 ms kept:
  its nanoseconds, 9223372036855000000, are beyond \<open>int64\<close> and wrap around.\<close>
theorem explicit_timestamp_counterexample:
  "map p_timestamp (added_points (trace (snd
      (add_metric ex_env False ''x'' (ex_family GAUGE []) (ex_metric 1 [] (Some (- 5)))
         GaugeValue 1 [] ex_state)))) = [1700000000123000000]
   \<and> time_Unix 0 (- 5 * Millisecond) = - 5000000
   \<and> map p_timestamp (added_points (trace (snd
      (add_metric ex_env False ''x'' (ex_family GAUGE []) (ex_metric 1 [] (Some 9223372036855))
         GaugeValue 1 [] ex_state)))) = [- 9223372036854551616]"
  by (simp add: eval_defs)

subsection \<open>Kinds\<close>

text \<open>C5: for a family whose type is none of Gauge, Counter and Untyped (Summary,
  Histogram, Gauge-histogram) the metric loop ends at its first metric with the state
  it started from, so no \<open>collector.Add\<close> is called; the family loop goes on to the
  next family with nothing but the three debug lines written.\<close>
theorem unsupported_family_adds_nothing:
  assumes "GetType mf \<noteq> GAUGE" and "GetType mf \<noteq> COUNTER" and "GetType mf \<noteq> UNTYPED"
  shows "metric_loop e dbg name mf ms labels cnt st = (cnt, st)
       \<and> family_loop e dbg ((name, mf) # mfs) cnt st =
           family_loop e dbg mfs cnt
             (emit_if dbg [Dbg_MetricName name, Dbg_MetricType (GetType mf), Dbg_MetricHelp (GetHelp mf)] st)"
proof -
  have sw: "switch_type mf m = None" for m
    using assms by (cases "GetType mf") (simp_all add: switch_type_def)
  have ml: "metric_loop e dbg name mf ms labels cnt st' = (cnt, st')" for ms labels st'
    by (cases ms) (simp_all add: sw)
  show ?thesis
    by (simp add: ml)
qed

theorem unsupported_family_adds_nothing_witness:
  "GetType (ex_family HISTOGRAM [ex_metric 7 [] None]) \<noteq> GAUGE
   \<and> GetType (ex_family HISTOGRAM [ex_metric 7 [] None]) \<noteq> COUNTER
   \<and> GetType (ex_family HISTOGRAM [ex_metric 7 [] None]) \<noteq> UNTYPED
   \<and> metric_loop ex_env False ''h'' (ex_family HISTOGRAM [ex_metric 7 [] None])
        [ex_metric 7 [] None] [] 0 ex_state = (0, ex_state)
   \<and> family_loop ex_env False [(''h'', ex_family HISTOGRAM [ex_metric 7 [] None])] 0 ex_state =
        (0, ex_state)"
proof -
  have t: "GetType (ex_family HISTOGRAM [ex_metric 7 [] None]) \<noteq> GAUGE"
    "GetType (ex_family HISTOGRAM [ex_metric 7 [] None]) \<noteq> COUNTER"
    "GetType (ex_family HISTOGRAM [ex_metric 7 [] None]) \<noteq> UNTYPED"
    by (simp_all add: ex_family_def GetType_def)
  from unsupported_family_adds_nothing [OF t, of ex_env False "''h''" "[ex_metric 7 [] None]" "[]" 0 ex_state "[]"]
  show ?thesis using t by (simp add: emit_if_def)
qed

subsection \<open>Labels\<close>

text \<open>C3: the label map is created once per family (line 175) and written to by every
  metric of the family (line 223), so a metric is added with the labels of the metrics
  before it as well. In a Gauge family with the metrics \<open>x{a="1"} 1\<close> and
  \<open>x{b="2"} 2\<close> the second \<open>collector.Add\<close> call gets the labels \<open>a\<close> and \<open>b\<close>.\<close>
theorem labels_carried_over_between_metrics:
  "map p_labels (added_points (trace (snd
      (family_loop ex_env False
         [(''x'', ex_family GAUGE [ex_metric 1 [(''a'', ''1'')] None, ex_metric 2 [(''b'', ''2'')] None])]
         0 ex_state)))) =
     [[(''a'', ''1'')], [(''a'', ''1''), (''b'', ''2'')]]"
  by (simp add: eval_defs GetMetric_def switch_type_def GetType_def)

subsection \<open>The file loop\<close>

lemma process_file_stale:
  assumes "Stat e f = Inr fileinfo"
      and "fi_ModTime fileinfo + optOldFilesAge cfg < clock e (ticks st)"
  shows "process_file e cfg dbg n i f st =
           st\<lparr>ticks := Suc (ticks st),
               trace := trace st @
                 (if dbg \<or> int i < 5 \<or> int n - 5 \<le> int i then [Log_Processing (i + 1) n f] else []) @
                 [Log_OldFile (i + 1) n f,
                  Log_Running (i + 1) n (ReplaceAll (optOldFilesExternalCmd cfg) ''{}'' f),
                  Exec (ReplaceAll (optOldFilesExternalCmd cfg) ''{}'' f)] @
                 (if snd (cmd_Output e (ReplaceAll (optOldFilesExternalCmd cfg) ''{}'' f)) \<noteq> None
                  then [Log_ErrCmd (i + 1) n (ReplaceAll (optOldFilesExternalCmd cfg) ''{}'' f)] else []) @
                 [Println_output (fst (cmd_Output e (ReplaceAll (optOldFilesExternalCmd cfg) ''{}'' f)))]\<rparr>"
  using assms
  by (simp add: process_file_def Let_def time_Now_def After_def time_Add_def emit_def emit_if_def
      split_beta)

text \<open>C6: a file of the pass whose modification time plus the old-files age lies before
  the clock reading of line 153 is not parsed. The file loop goes on to the next file
  after a step that calls the collector not at all, so the file contributes no point,
  and that runs one command, the template with every \<open>{}\<close> replaced by the file's
  path.\<close>
theorem stale_file_runs_command_once:
  assumes "Stat e f = Inr fileinfo"
      and "fi_ModTime fileinfo + optOldFilesAge cfg < clock e (ticks st)"
  shows "\<exists>evs. files_loop e cfg dbg n i (f # fs) st =
                 files_loop e cfg dbg n (Suc i) fs
                   (st\<lparr>ticks := Suc (ticks st), trace := trace st @ evs\<rparr>)
             \<and> \<not> list_ex is_collector_call evs
             \<and> added_points evs = []
             \<and> executed evs = [ReplaceAll (optOldFilesExternalCmd cfg) ''{}'' f]"
proof -
  let ?cmd = "ReplaceAll (optOldFilesExternalCmd cfg) ''{}'' f"
  let ?evs = "(if dbg \<or> int i < 5 \<or> int n - 5 \<le> int i then [Log_Processing (i + 1) n f] else []) @
                 [Log_OldFile (i + 1) n f, Log_Running (i + 1) n ?cmd, Exec ?cmd] @
                 (if snd (cmd_Output e ?cmd) \<noteq> None then [Log_ErrCmd (i + 1) n ?cmd] else []) @
                 [Println_output (fst (cmd_Output e ?cmd))]"
  have "files_loop e cfg dbg n i (f # fs) st =
          files_loop e cfg dbg n (Suc i) fs (st\<lparr>ticks := Suc (ticks st), trace := trace st @ ?evs\<rparr>)"
    by (simp add: process_file_stale [OF assms])
  moreover have "\<not> list_ex is_collector_call ?evs"
    by simp
  moreover have "added_points ?evs = []"
    by (simp add: added_points_Cons)
  moreover have "executed ?evs = [?cmd]"
    by (simp add: executed_Cons)
  ultimately show ?thesis by blast
qed

theorem stale_file_runs_command_once_witness:
  "Stat ex_env ''/m/old.prom'' = Inr (ex_file ''old.prom'' 1600000000000000000)
   \<and> fi_ModTime (ex_file ''old.prom'' 1600000000000000000) + optOldFilesAge ex_cfg
        < clock ex_env (ticks ex_state)
   \<and> added_points (trace (files_loop ex_env ex_cfg False 1 0 [''/m/old.prom''] ex_state)) = []
   \<and> executed (trace (files_loop ex_env ex_cfg False 1 0 [''/m/old.prom''] ex_state)) =
        [''ls -l /m/old.prom'']"
proof -
  have h1: "Stat ex_env ''/m/old.prom'' = Inr (ex_file ''old.prom'' 1600000000000000000)"
    by (simp add: ex_env_def)
  have h2: "fi_ModTime (ex_file ''old.prom'' 1600000000000000000) + optOldFilesAge ex_cfg
              < clock ex_env (ticks ex_state)"
    by (simp add: ex_env_def ex_file_def ex_cfg_def ex_clock_def ex_state_def Hour_def)
  from stale_file_runs_command_once [OF h1 h2, of False 1 0 "[]"]
  obtain evs where evs:
    "files_loop ex_env ex_cfg False 1 0 [''/m/old.prom''] ex_state =
       ex_state\<lparr>ticks := Suc (ticks ex_state), trace := trace ex_state @ evs\<rparr>"
    "added_points evs = []"
    "executed evs = [ReplaceAll (optOldFilesExternalCmd ex_cfg) ''{}'' ''/m/old.prom'']"
    by auto
  have c: "optOldFilesExternalCmd ex_cfg = ''ls -l {}''"
    by (simp add: ex_cfg_def)
  have "added_points (trace (files_loop ex_env ex_cfg False 1 0 [''/m/old.prom''] ex_state)) = []"
    by (subst evs(1)) (simp add: evs(2) ex_state_def added_points_Cons)
  moreover have "executed (trace (files_loop ex_env ex_cfg False 1 0 [''/m/old.prom''] ex_state)) =
        [''ls -l /m/old.prom'']"
    by (subst evs(1)) (simp add: evs(3) c ReplaceAll_example ex_state_def executed_Cons)
  ultimately show ?thesis using h1 h2 by blast
qed

text \<open>C9: when \<open>parseMF\<close> fails for a file that is not old, the step writes the
  error line (after the progress line, where that is printed) and nothing else: the
  trace so far, with every point added from the files before, stays as it is, and the
  loop goes on with the remaining files.\<close>
theorem parse_failure_skips_one_file:
  assumes "Stat e f = Inr fileinfo"
      and "\<not> fi_ModTime fileinfo + optOldFilesAge cfg < clock e (ticks st)"
      and "parseMF e f = Inl err"
  shows "files_loop e cfg dbg n i (f # fs) st =
           files_loop e cfg dbg n (Suc i) fs
             (st\<lparr>ticks := Suc (ticks st),
                 trace := trace st @
                   (if dbg \<or> int i < 5 \<or> int n - 5 \<le> int i then [Log_Processing (i + 1) n f] else []) @
                   [Log_ErrParse (i + 1) n f]\<rparr>)"
  using assms
  by (simp add: process_file_def Let_def time_Now_def After_def time_Add_def emit_def emit_if_def)

theorem parse_failure_skips_one_file_witness:
  "Stat ex_env ''/m/bad.prom'' = Inr (ex_file ''bad.prom'' 1700000000000000000)
   \<and> \<not> fi_ModTime (ex_file ''bad.prom'' 1700000000000000000) + optOldFilesAge ex_cfg
          < clock ex_env (ticks ex_state)
   \<and> parseMF ex_env ''/m/bad.prom'' = Inl ''text format parsing error''
   \<and> files_loop ex_env ex_cfg False 2 0 [''/m/bad.prom'', ''/m/a.prom''] ex_state =
       files_loop ex_env ex_cfg False 2 1 [''/m/a.prom'']
         (ex_state\<lparr>ticks := 1,
            trace := trace ex_state @ [Log_Processing 1 2 ''/m/bad.prom'', Log_ErrParse 1 2 ''/m/bad.prom'']\<rparr>)
   \<and> map p_name (added_points (trace
        (files_loop ex_env ex_cfg False 2 1 [''/m/a.prom'']
           (ex_state\<lparr>ticks := 1,
              trace := trace ex_state @ [Log_Processing 1 2 ''/m/bad.prom'', Log_ErrParse 1 2 ''/m/bad.prom'']\<rparr>)))) =
      [''x'', ''y'']"
proof -
  have h1: "Stat ex_env ''/m/bad.prom'' = Inr (ex_file ''bad.prom'' 1700000000000000000)"
    by (simp add: ex_env_def)
  have h2: "\<not> fi_ModTime (ex_file ''bad.prom'' 1700000000000000000) + optOldFilesAge ex_cfg
          < clock ex_env (ticks ex_state)"
    by (simp add: ex_env_def ex_file_def ex_cfg_def ex_clock_def ex_state_def Hour_def)
  have h3: "parseMF ex_env ''/m/bad.prom'' = Inl ''text format parsing error''"
    by (simp add: parseMF_def ex_env_def)
  have "files_loop ex_env ex_cfg False 2 0 [''/m/bad.prom'', ''/m/a.prom''] ex_state =
       files_loop ex_env ex_cfg False 2 1 [''/m/a.prom'']
         (ex_state\<lparr>ticks := 1,
            trace := trace ex_state @ [Log_Processing 1 2 ''/m/bad.prom'', Log_ErrParse 1 2 ''/m/bad.prom'']\<rparr>)"
    using parse_failure_skips_one_file [OF h1 h2 h3, of False 2 0 "[''/m/a.prom'']"]
    by (simp add: ex_state_def)
  moreover have "map p_name (added_points (trace
        (files_loop ex_env ex_cfg False 2 1 [''/m/a.prom'']
           (ex_state\<lparr>ticks := 1,
              trace := trace ex_state @ [Log_Processing 1 2 ''/m/bad.prom'', Log_ErrParse 1 2 ''/m/bad.prom'']\<rparr>)))) =
      [''x'', ''y'']"
    by (simp add: eval_defs eval_file_defs)
  ultimately show ?thesis using h1 h2 h3 by blast
qed

subsection \<open>Errors of the scan itself\<close>

lemma debug_switch_trace [simp]: "trace (snd (debug_switch e p st)) = trace st"
  by (simp add: debug_switch_def isOlderThanTwoHours_def time_Now_def split: sum.splits)

text \<open>C2, as the code has it: when \<open>os.Stat\<close> of the configured path fails, or the
  path is a directory and \<open>os.ReadDir\<close> fails, the pass is given up before the
  collector is touched (at most the debug notice is written) and the \<open>break\<close> ends
  the scan loop: the goroutine returns, whatever the environments of later iterations
  would be. No later pass is run.\<close>
theorem scan_error_ends_the_loop:
  assumes "(\<exists>err. Stat e (optPromPath cfg) = Inl err)
         \<or> (\<exists>fileinfo err. Stat e (optPromPath cfg) = Inr fileinfo \<and> fi_IsDir fileinfo
               \<and> ReadDir e (optPromPath cfg) = Inl err)"
  shows "fst (scan_loop cfg (e # es) st) = Returned
       \<and> (\<exists>evs. trace (snd (scan_loop cfg (e # es) st)) = trace st @ evs
                \<and> set evs \<subseteq> {Log_DebugEnabled})"
  using assms
proof (elim disjE exE conjE)
  fix err
  assume "Stat e (optPromPath cfg) = Inl err"
  then have "scan_pass e cfg st = (Break, st)"
    by (simp add: scan_pass_def)
  then show ?thesis by simp
next
  fix fileinfo err
  assume a: "Stat e (optPromPath cfg) = Inr fileinfo" "fi_IsDir fileinfo"
    "ReadDir e (optPromPath cfg) = Inl err"
  obtain dbg st1 where d: "debug_switch e (optPromPath cfg) st = (dbg, st1)"
    by (cases "debug_switch e (optPromPath cfg) st")
  have t: "trace st1 = trace st"
    using debug_switch_trace [of e "optPromPath cfg" st] d by simp
  have "scan_pass e cfg st = (Break, emit_if dbg [Log_DebugEnabled] st1)"
    using a d by (simp add: scan_pass_def list_files_def)
  then show ?thesis
    by (auto simp: t)
qed

theorem scan_error_ends_the_loop_witness:
  "Stat ex_missing (optPromPath ex_cfg) = Inl ''no such file or directory''
   \<and> scan_loop ex_cfg [ex_missing, ex_env, ex_env] ex_state = (Returned, ex_state)
   \<and> Stat ex_unreadable (optPromPath ex_cfg) = Inr (ex_dir ''m'') \<and> fi_IsDir (ex_dir ''m'')
   \<and> ReadDir ex_unreadable (optPromPath ex_cfg) = Inl ''permission denied''
   \<and> fst (scan_loop ex_cfg [ex_unreadable, ex_env, ex_env] ex_state) = Returned
   \<and> trace (snd (scan_loop ex_cfg [ex_unreadable, ex_env, ex_env] ex_state)) = trace ex_state"
proof -
  have h1: "Stat ex_missing (optPromPath ex_cfg) = Inl ''no such file or directory''"
    by (simp add: ex_missing_def ex_cfg_def)
  have h2: "Stat ex_unreadable (optPromPath ex_cfg) = Inr (ex_dir ''m'')" "fi_IsDir (ex_dir ''m'')"
    "ReadDir ex_unreadable (optPromPath ex_cfg) = Inl ''permission denied''"
    by (simp_all add: ex_unreadable_def ex_env_def ex_cfg_def ex_dir_def)
  have dbg: "Stat ex_unreadable (optPromPath ex_cfg @ ''/debug_tfe'') = Inl ''no such file or directory''"
    by (simp add: ex_unreadable_def ex_env_def ex_cfg_def)
  have a: "scan_loop ex_cfg [ex_missing, ex_env, ex_env] ex_state = (Returned, ex_state)"
    using scan_error_ends_the_loop [of ex_missing ex_cfg "[ex_env, ex_env]" ex_state] h1
    by (simp add: scan_pass_def)
  have b: "fst (scan_loop ex_cfg [ex_unreadable, ex_env, ex_env] ex_state) = Returned"
    using scan_error_ends_the_loop [of ex_unreadable ex_cfg "[ex_env, ex_env]" ex_state] h2
    by blast
  have c: "trace (snd (scan_loop ex_cfg [ex_unreadable, ex_env, ex_env] ex_state)) = trace ex_state"
    using h2 dbg by (simp add: scan_pass_def list_files_def debug_switch_def emit_if_def)
  show ?thesis using h1 h2 a b c by blast
qed

text \<open>C2, as the claim states it, fails: with the directory missing at the first
  iteration and present at the second, no second iteration takes place (the loop has
  returned with the state it started from), where a scan of the second environment
  alone finds the points \<open>x\<close> and \<open>y\<close>.\<close>
theorem scan_error_counterexample:
  "scan_loop ex_cfg [ex_missing, ex_env] ex_state = (Returned, ex_state)
   \<and> fst (scan_loop ex_cfg [ex_env] ex_state) = Looping
   \<and> map p_name (added_points (trace (snd (scan_loop ex_cfg [ex_env] ex_state)))) = [''x'', ''y'']"
  by (simp add: eval_defs eval_file_defs scan_pass_def ex_missing_def debug_switch_def list_files_def
      ex_dir_def HasSuffix_def ReplaceAll_example)

subsection \<open>A collection while a pass runs\<close>

lemma replay_Nil [simp]: "replay [] c = c"
  by (simp add: replay_def)

lemma replay_Cons [simp]: "replay (ev # evs) c = replay evs (apply_event c ev)"
  by (simp add: replay_def)

lemma replay_append [simp]: "replay (xs @ ys) c = replay ys (replay xs c)"
  by (simp add: replay_def)

lemma apply_event_no_call: "\<not> is_collector_call ev \<Longrightarrow> apply_event c ev = c"
  by (cases ev) simp_all

lemma replay_no_calls: "\<not> list_ex is_collector_call evs \<Longrightarrow> replay evs c = c"
  by (induction evs arbitrary: c) (simp_all add: apply_event_no_call)

lemma no_calls_take: "\<not> list_ex is_collector_call evs \<Longrightarrow> \<not> list_ex is_collector_call (take k evs)"
  by (auto simp: list_ex_iff dest: in_set_takeD)

lemma no_clear_take: "\<not> list_ex is_clear evs \<Longrightarrow> \<not> list_ex is_clear (take k evs)"
  by (auto simp: list_ex_iff dest: in_set_takeD)

lemma added_of_no_call: "\<not> is_collector_call ev \<Longrightarrow> added_of ev = []"
  by (cases ev) simp_all

lemma no_calls_added: "\<not> list_ex is_collector_call evs \<Longrightarrow> added_points evs = []"
  by (induction evs) (simp_all add: added_points_Cons added_of_no_call)

lemma apply_event_no_clear:
  "\<not> is_clear ev \<Longrightarrow> apply_event c ev = foldl (\<lambda>c p. Add p c) c (added_of ev)"
  by (cases ev) simp_all

lemma replay_no_clear:
  "\<not> list_ex is_clear evs \<Longrightarrow> replay evs c = foldl (\<lambda>c p. Add p c) c (added_points evs)"
  by (induction evs arbitrary: c) (simp_all add: added_points_Cons apply_event_no_clear)

lemma added_points_take: "\<exists>j. added_points (take k evs) = take j (added_points evs)"
proof -
  have "added_points evs = added_points (take k evs) @ added_points (drop k evs)"
    by (simp flip: added_points_append)
  then have "take (length (added_points (take k evs))) (added_points evs) = added_points (take k evs)"
    by simp
  then show ?thesis by metis
qed

lemma Add_points_subset: "set (c_points (Add p c)) \<subseteq> insert p (set (c_points c))"
  by (auto simp: Add_def)

lemma foldl_Add_points:
  "set (c_points (foldl (\<lambda>c p. Add p c) c ps)) \<subseteq> set (c_points c) \<union> set ps"
proof (induction ps arbitrary: c)
  case Nil
  show ?case by simp
next
  case (Cons p ps)
  have "set (c_points (foldl (\<lambda>c p. Add p c) (Add p c) ps)) \<subseteq> set (c_points (Add p c)) \<union> set ps"
    by (rule Cons)
  with Add_points_subset [of p c] show ?case by auto
qed

lemma metric_loop_trace:
  "\<exists>evs. trace (snd (metric_loop e dbg name mf ms labels cnt st)) = trace st @ evs
         \<and> \<not> list_ex is_clear evs"
proof (induction ms arbitrary: labels cnt st)
  case Nil
  show ?case by simp
next
  case (Cons m ms)
  show ?case
  proof (cases "switch_type mf m")
    case None
    then show ?thesis by simp
  next
    case (Some tv)
    obtain ty v where tv: "tv = (ty, v)" by (cases tv)
    obtain labels' st' where a: "add_metric e dbg name mf m ty v labels st = (labels', st')"
      by (cases "add_metric e dbg name mf m ty v labels st")
    from add_metric_trace [of e dbg name mf m ty v labels st] a
    obtain evs1 where evs1: "trace st' = trace st @ evs1" "\<not> list_ex is_clear evs1"
      by auto
    from Cons [of labels' "cnt + 1" st']
    obtain evs2 where evs2:
      "trace (snd (metric_loop e dbg name mf ms labels' (cnt + 1) st')) = trace st' @ evs2"
      "\<not> list_ex is_clear evs2"
      by blast
    have "trace (snd (metric_loop e dbg name mf (m # ms) labels cnt st)) = trace st @ (evs1 @ evs2)"
      by (simp add: Some tv a evs2(1) evs1(1))
    moreover have "\<not> list_ex is_clear (evs1 @ evs2)"
      using evs1(2) evs2(2) by simp
    ultimately show ?thesis by blast
  qed
qed

lemma family_loop_trace:
  "\<exists>evs. trace (snd (family_loop e dbg mfs cnt st)) = trace st @ evs \<and> \<not> list_ex is_clear evs"
proof (induction mfs arbitrary: cnt st)
  case Nil
  show ?case by simp
next
  case (Cons nmf mfs)
  obtain name mf where nmf: "nmf = (name, mf)" by (cases nmf)
  let ?st0 = "emit_if dbg [Dbg_MetricName name, Dbg_MetricType (GetType mf), Dbg_MetricHelp (GetHelp mf)] st"
  obtain cnt' st' where m: "metric_loop e dbg name mf (GetMetric mf) [] cnt ?st0 = (cnt', st')"
    by (cases "metric_loop e dbg name mf (GetMetric mf) [] cnt ?st0")
  from metric_loop_trace [of e dbg name mf "GetMetric mf" "[]" cnt ?st0] m
  obtain evs1 where evs1: "trace st' = trace ?st0 @ evs1" "\<not> list_ex is_clear evs1"
    by auto
  from Cons [of cnt' st']
  obtain evs2 where evs2: "trace (snd (family_loop e dbg mfs cnt' st')) = trace st' @ evs2"
    "\<not> list_ex is_clear evs2"
    by blast
  let ?evs = "(if dbg then [Dbg_MetricName name, Dbg_MetricType (GetType mf), Dbg_MetricHelp (GetHelp mf)] else []) @ evs1 @ evs2"
  have "trace (snd (family_loop e dbg (nmf # mfs) cnt st)) = trace st @ ?evs"
    by (simp add: nmf m evs2(1) evs1(1))
  moreover have "\<not> list_ex is_clear ?evs"
    using evs1(2) evs2(2) by simp
  ultimately show ?case by blast
qed

lemma process_file_trace:
  "\<exists>evs. trace (process_file e cfg dbg n i f st) = trace st @ evs \<and> \<not> list_ex is_clear evs"
proof (cases "Stat e f")
  case (Inl err)
  then show ?thesis
    by (simp add: process_file_def Let_def)
next
  case (Inr fileinfo)
  show ?thesis
  proof (cases "fi_ModTime fileinfo + optOldFilesAge cfg < clock e (ticks st)")
    case True
    show ?thesis
      by (simp add: process_file_stale [OF Inr True])
  next
    case False
    show ?thesis
    proof (cases "parseMF e f")
      case (Inl err)
      then show ?thesis
        using Inr False
        by (simp add: process_file_def Let_def time_Now_def After_def time_Add_def)
    next
      case mfs: (Inr mfs)
      let ?st2 = "(emit_if (dbg \<or> int i < 5 \<or> int n - 5 \<le> int i) [Log_Processing (i + 1) n f] st)\<lparr>ticks := Suc (ticks st)\<rparr>"
      obtain cnt st3 where fl: "family_loop e dbg mfs 0 ?st2 = (cnt, st3)"
        by (cases "family_loop e dbg mfs 0 ?st2")
      from family_loop_trace [of e dbg mfs 0 ?st2] fl
      obtain evs where evs: "trace st3 = trace ?st2 @ evs" "\<not> list_ex is_clear evs"
        by auto
      have "process_file e cfg dbg n i f st =
              emit_if (dbg \<or> int i < 5 \<or> int n - 5 \<le> int i) [Log_DataPoints (i + 1) n cnt] st3"
        using Inr False mfs fl
        by (simp add: process_file_def Let_def time_Now_def After_def time_Add_def)
      then show ?thesis
        using evs by simp
    qed
  qed
qed

lemma files_loop_trace:
  "\<exists>evs. trace (files_loop e cfg dbg n i fs st) = trace st @ evs \<and> \<not> list_ex is_clear evs"
proof (induction fs arbitrary: i st)
  case Nil
  show ?case by simp
next
  case (Cons f fs)
  from process_file_trace [of e cfg dbg n i f st]
  obtain evs1 where evs1: "trace (process_file e cfg dbg n i f st) = trace st @ evs1"
    "\<not> list_ex is_clear evs1"
    by blast
  from Cons [of "Suc i" "process_file e cfg dbg n i f st"]
  obtain evs2 where evs2:
    "trace (files_loop e cfg dbg n (Suc i) fs (process_file e cfg dbg n i f st)) =
       trace (process_file e cfg dbg n i f st) @ evs2"
    "\<not> list_ex is_clear evs2"
    by blast
  have "trace (files_loop e cfg dbg n i (f # fs) st) = trace st @ (evs1 @ evs2)"
    by (simp add: evs2(1) evs1(1))
  moreover have "\<not> list_ex is_clear (evs1 @ evs2)"
    using evs1(2) evs2(2) by simp
  ultimately show ?case by blast
qed

lemma pass_events_shape:
  "\<exists>pre rest. pass_events e cfg st = pre @ rest \<and> \<not> list_ex is_collector_call pre
      \<and> (rest = [] \<or> (\<exists>post. rest = Collector_Clear # post \<and> \<not> list_ex is_clear post))"
proof (cases "Stat e (optPromPath cfg)")
  case (Inl err)
  then have "pass_events e cfg st = [] @ []"
    by (simp add: pass_events_def scan_pass_def)
  then show ?thesis by force
next
  case (Inr fileinfo)
  obtain dbg st1 where d: "debug_switch e (optPromPath cfg) st = (dbg, st1)"
    by (cases "debug_switch e (optPromPath cfg) st")
  have t: "trace st1 = trace st"
    using debug_switch_trace [of e "optPromPath cfg" st] d by simp
  show ?thesis
  proof (cases "list_files e (optPromPath cfg) fileinfo")
    case (Inl err)
    then have "pass_events e cfg st = (if dbg then [Log_DebugEnabled] else []) @ []"
      using Inr d by (simp add: pass_events_def scan_pass_def t)
    moreover have "\<not> list_ex is_collector_call (if dbg then [Log_DebugEnabled] else [])"
      by simp
    ultimately show ?thesis by blast
  next
    case files: (Inr files)
    let ?st3 = "emit [Log_Found (length files), Collector_Clear] (emit_if dbg [Log_DebugEnabled] st1)"
    from files_loop_trace [of e cfg dbg "length files" 0 files ?st3]
    obtain evs where evs:
      "trace (files_loop e cfg dbg (length files) 0 files ?st3) = trace ?st3 @ evs"
      "\<not> list_ex is_clear evs"
      by blast
    let ?pre = "(if dbg then [Log_DebugEnabled] else []) @ [Log_Found (length files)]"
    let ?post = "evs @ [Sleep (optScanInterval cfg)]"
    have "pass_events e cfg st = ?pre @ Collector_Clear # ?post"
      using Inr d files by (simp add: pass_events_def scan_pass_def Let_def evs(1) t)
    moreover have "\<not> list_ex is_collector_call ?pre"
      by simp
    moreover have "\<not> list_ex is_clear ?post"
      using evs(2) by simp
    ultimately show ?thesis by blast
  qed
qed

text \<open>The pass on the concrete directory, step by step.\<close>
lemmas eval_pass_defs = scan_pass_def pass_events_def debug_switch_def list_files_def ex_dir_def
  HasSuffix_def

lemmas eval_collector_defs = visible_def ex_prev_def ex_point_def Add_def Clear_def Snapshot_def
  newTimeAwareCollector_def identity_def

lemma ex_pass_events:
  "pass_events ex_env ex_cfg ex_state =
     [Log_Found 3, Collector_Clear,
      Log_Processing 1 3 ''/m/old.prom'', Log_OldFile 1 3 ''/m/old.prom'',
      Log_Running 1 3 ''ls -l /m/old.prom'', Exec ''ls -l /m/old.prom'', Println_output ''listing'',
      Log_Processing 2 3 ''/m/bad.prom'', Log_ErrParse 2 3 ''/m/bad.prom'',
      Log_Processing 3 3 ''/m/a.prom'',
      Collector_Add \<lparr>p_name = ''x'', p_labels = [], p_kind = GaugeValue, p_value = 2,
                      p_timestamp = 1700000000123000000, p_arg6 = 0, p_help = ''help''\<rparr>,
      Collector_Add \<lparr>p_name = ''y'', p_labels = [], p_kind = CounterValue, p_value = 5,
                      p_timestamp = 1700000000123000000, p_arg6 = 0, p_help = ''help''\<rparr>,
      Log_DataPoints 3 3 2, Sleep 30000000000]"
  by (simp add: eval_defs eval_file_defs eval_pass_defs ReplaceAll_example)

text \<open>C1, as the code has it: the pass empties the collector first (line 138) and then
  adds its points one by one, and a collection can run between any two of these
  steps. The collector it finds is either the one the pass started with (before the
  \<open>Clear\<close>), or the emptied collector with the first \<open>j\<close> points of the new pass
  added, for some \<open>j\<close>. So a collection never returns a point of the previous pass
  next to a point of the new one, but it can return any initial part of the new pass,
  the empty one included.\<close>
theorem collection_during_pass:
  "visible (pass_events e cfg st) c k = c
   \<or> (\<exists>j. visible (pass_events e cfg st) c k =
             foldl (\<lambda>c p. Add p c) (Clear c) (take j (added_points (pass_events e cfg st)))
         \<and> set (Snapshot now (visible (pass_events e cfg st) c k))
             \<subseteq> set (take j (added_points (pass_events e cfg st))))"
proof -
  from pass_events_shape [of e cfg st]
  obtain pre rest where sh: "pass_events e cfg st = pre @ rest" "\<not> list_ex is_collector_call pre"
    "rest = [] \<or> (\<exists>post. rest = Collector_Clear # post \<and> \<not> list_ex is_clear post)"
    by blast
  show ?thesis
  proof (cases "k \<le> length pre \<or> rest = []")
    case True
    then have "take k (pass_events e cfg st) = take k pre"
      using sh(1) by auto
    then have "visible (pass_events e cfg st) c k = c"
      using sh(2) by (simp add: visible_def replay_no_calls no_calls_take)
    then show ?thesis by simp
  next
    case False
    then obtain post where post: "rest = Collector_Clear # post" "\<not> list_ex is_clear post"
      using sh(3) by blast
    from False obtain k' where k': "k = length pre + Suc k'"
      by (metis add_Suc_right less_imp_Suc_add not_le)
    have tk: "take k (pass_events e cfg st) = pre @ Collector_Clear # take k' post"
      by (simp add: sh(1) post(1) k')
    obtain j where j: "added_points (take k' post) = take j (added_points post)"
      using added_points_take by blast
    have ap: "added_points (pass_events e cfg st) = added_points post"
      by (simp add: sh(1) post(1) no_calls_added [OF sh(2)] added_points_Cons)
    have v: "visible (pass_events e cfg st) c k =
          foldl (\<lambda>c p. Add p c) (Clear c) (take j (added_points (pass_events e cfg st)))"
      by (simp add: visible_def tk replay_no_calls [OF sh(2)]
          replay_no_clear [OF no_clear_take [OF post(2)]] j ap)
    have "set (c_points (visible (pass_events e cfg st) c k))
            \<subseteq> set (take j (added_points (pass_events e cfg st)))"
      unfolding v using foldl_Add_points [of "Clear c"] by (simp add: Clear_def)
    then have "set (Snapshot now (visible (pass_events e cfg st) c k))
            \<subseteq> set (take j (added_points (pass_events e cfg st)))"
      by (auto simp: Snapshot_def)
    with v show ?thesis by blast
  qed
qed

theorem collection_during_pass_witness:
  "visible (pass_events ex_env ex_cfg ex_state) ex_prev 11 =
     foldl (\<lambda>c p. Add p c) (Clear ex_prev) (take 1 (added_points (pass_events ex_env ex_cfg ex_state)))
   \<and> visible (pass_events ex_env ex_cfg ex_state) ex_prev 11 \<noteq> ex_prev"
proof -
  have ne: "visible (pass_events ex_env ex_cfg ex_state) ex_prev 11 \<noteq> ex_prev"
    by (simp add: ex_pass_events eval_collector_defs)
  from collection_during_pass [of ex_env ex_cfg ex_state ex_prev 11 0] ne
  obtain j where j: "visible (pass_events ex_env ex_cfg ex_state) ex_prev 11 =
      foldl (\<lambda>c p. Add p c) (Clear ex_prev) (take j (added_points (pass_events ex_env ex_cfg ex_state)))"
    by blast
  have "j = 1"
  proof (rule ccontr)
    assume "j \<noteq> 1"
    then have "j = 0 \<or> 2 \<le> j" by arith
    then show False
      using j by (auto simp: ex_pass_events eval_collector_defs added_points_Cons)
  qed
  with j ne show ?thesis by simp
qed

text \<open>C1, as the claim states it, fails: with \<open>x = 1\<close> left by the previous pass and
  a new pass that finds \<open>x = 2\<close> and \<open>y = 5\<close>, a collection before the pass returns
  \<open>x = 1\<close> and one after it \<open>x = 2, y = 5\<close>, but a collection after 2 steps of the
  pass returns nothing and one after 11 steps only \<open>x = 2\<close>: neither the previous
  pass's points nor the new pass's.\<close>
theorem collection_during_pass_counterexample:
  "map p_value (Snapshot 1700000000200000000 (visible (pass_events ex_env ex_cfg ex_state) ex_prev 0)) = [1]
   \<and> map p_value (Snapshot 1700000000200000000 (visible (pass_events ex_env ex_cfg ex_state) ex_prev 2)) = []
   \<and> map p_value (Snapshot 1700000000200000000 (visible (pass_events ex_env ex_cfg ex_state) ex_prev 11)) = [2]
   \<and> map p_value (Snapshot 1700000000200000000 (visible (pass_events ex_env ex_cfg ex_state) ex_prev 14)) = [2, 5]"
  by (simp add: ex_pass_events eval_collector_defs Hour_def)

subsection \<open>The store\<close>

lemma Add_distinct:
  "distinct (map identity (c_points c)) \<Longrightarrow> distinct (map identity (c_points (Add p c)))"
  by (auto simp: Add_def distinct_map_filter)

lemma apply_event_distinct:
  "distinct (map identity (c_points c)) \<Longrightarrow> distinct (map identity (c_points (apply_event c ev)))"
  by (cases ev) (simp_all add: Add_distinct, simp add: Clear_def)

lemma replay_distinct:
  "distinct (map identity (c_points c)) \<Longrightarrow> distinct (map identity (c_points (replay tr c)))"
  by (induction tr arbitrary: c) (simp_all add: apply_event_distinct)

lemma Add_same_identity:
  "filter (\<lambda>r. identity r = identity q) (c_points (Add q c)) = [q]"
proof -
  have "filter (\<lambda>r. identity r = identity q) (filter (\<lambda>r. identity r \<noteq> identity q) (c_points c)) = []"
    by (simp add: filter_empty_conv)
  then show ?thesis by (simp add: Add_def)
qed

text \<open>C7: whatever calls the scan loop has made since the collector was created, a
  collection returns no two points with the same identity. When two points with the
  same identity are added one after the other, the collector holds, and a collection
  returns, the later one alone under that identity (as long as it is not too old).\<close>
theorem one_point_per_identity:
  "distinct (map identity (Snapshot now (replay tr (newTimeAwareCollector maxAge))))
   \<and> (identity p = identity q \<longrightarrow>
        filter (\<lambda>r. identity r = identity q) (c_points (Add q (Add p c))) = [q]
        \<and> filter (\<lambda>r. identity r = identity q) (Snapshot now (Add q (Add p c))) =
            (if now - p_timestamp q \<le> c_maxAge c then [q] else []))"
proof -
  have "distinct (map identity (c_points (replay tr (newTimeAwareCollector maxAge))))"
    by (rule replay_distinct) (simp add: newTimeAwareCollector_def)
  then have a: "distinct (map identity (Snapshot now (replay tr (newTimeAwareCollector maxAge))))"
    by (simp add: Snapshot_def distinct_map_filter)
  have m: "c_maxAge (Add q (Add p c)) = c_maxAge c"
    by (simp add: Add_def)
  have "filter (\<lambda>r. identity r = identity q) (Snapshot now (Add q (Add p c))) =
          filter (\<lambda>r. now - p_timestamp r \<le> c_maxAge c)
            (filter (\<lambda>r. identity r = identity q) (c_points (Add q (Add p c))))"
    unfolding Snapshot_def m by (simp add: conj_commute)
  then have b: "filter (\<lambda>r. identity r = identity q) (Snapshot now (Add q (Add p c))) =
            (if now - p_timestamp q \<le> c_maxAge c then [q] else [])"
    by (simp add: Add_same_identity)
  show ?thesis using a b Add_same_identity by blast
qed

theorem one_point_per_identity_witness:
  "identity (ex_point 1 1700000000000000000) = identity (ex_point 2 1700000000123000000)
   \<and> c_points (Add (ex_point 2 1700000000123000000) ex_prev) = [ex_point 2 1700000000123000000]
   \<and> Snapshot 1700000000200000000 (Add (ex_point 2 1700000000123000000) ex_prev) =
        [ex_point 2 1700000000123000000]
   \<and> distinct (map identity (Snapshot 1700000000200000000
        (replay (pass_events ex_env ex_cfg ex_state) (newTimeAwareCollector (25 * Hour)))))"
proof -
  let ?p = "ex_point 1 1700000000000000000" and ?q = "ex_point 2 1700000000123000000"
  let ?c = "newTimeAwareCollector (25 * Hour)"
  note inst = one_point_per_identity [of 1700000000200000000 "pass_events ex_env ex_cfg ex_state"
      "25 * Hour" ?p ?q ?c]
  have i: "identity ?p = identity ?q"
    by (simp add: identity_def ex_point_def)
  have all: "filter (\<lambda>r. identity r = identity ?q) (c_points (Add ?q ex_prev)) = c_points (Add ?q ex_prev)"
    by (simp add: ex_prev_def Add_def newTimeAwareCollector_def i)
  have all': "filter (\<lambda>r. identity r = identity ?q) (Snapshot 1700000000200000000 (Add ?q ex_prev)) =
      Snapshot 1700000000200000000 (Add ?q ex_prev)"
    by (simp add: ex_prev_def Add_def Snapshot_def newTimeAwareCollector_def i)
  have age: "1700000000200000000 - p_timestamp ?q \<le> c_maxAge ?c"
    by (simp add: ex_point_def newTimeAwareCollector_def Hour_def)
  have "c_points (Add ?q ex_prev) = [?q]"
    using inst i all by (simp add: ex_prev_def)
  moreover have "Snapshot 1700000000200000000 (Add ?q ex_prev) = [?q]"
    using inst i all' age by (simp add: ex_prev_def)
  ultimately show ?thesis using inst i by blast
qed

lemma apply_event_maxAge: "c_maxAge (apply_event c ev) = c_maxAge c"
  by (cases ev) (simp_all add: Add_def Clear_def)

lemma replay_maxAge: "c_maxAge (replay tr c) = c_maxAge c"
  by (induction tr arbitrary: c) (simp_all add: apply_event_maxAge)

text \<open>C8: \<open>Add\<close> stores a point whatever its timestamp. Whatever calls the scan
  loop has made since the collector was created with the maximum age \<open>maxAge\<close>, a
  point that the collector holds is part of a collection at the instant \<open>now\<close> exactly
  when \<open>now - timestamp \<le> maxAge\<close>. So the same collector, with no write in between,
  returns the point at one instant and no longer at a later one.\<close>
theorem age_filter_at_read_time:
  "p \<in> set (c_points (Add p c))
   \<and> (p \<in> set (c_points (replay tr (newTimeAwareCollector maxAge))) \<longrightarrow>
        (p \<in> set (Snapshot now (replay tr (newTimeAwareCollector maxAge)))
           \<longleftrightarrow> now - p_timestamp p \<le> maxAge))"
proof -
  have "c_maxAge (replay tr (newTimeAwareCollector maxAge)) = maxAge"
    by (simp add: replay_maxAge newTimeAwareCollector_def)
  then have "p \<in> set (c_points (replay tr (newTimeAwareCollector maxAge))) \<Longrightarrow>
        (p \<in> set (Snapshot now (replay tr (newTimeAwareCollector maxAge)))
           \<longleftrightarrow> now - p_timestamp p \<le> maxAge)"
    by (simp add: Snapshot_def)
  moreover have "p \<in> set (c_points (Add p c))"
    by (simp add: Add_def)
  ultimately show ?thesis by blast
qed

theorem age_filter_at_read_time_witness:
  "replay [Collector_Add (ex_point 1 1700000000000000000)] (newTimeAwareCollector (25 * Hour)) = ex_prev
   \<and> ex_point 1 1700000000000000000 \<in> set (c_points ex_prev)
   \<and> ex_point 1 1700000000000000000 \<in> set (Snapshot 1700090000000000000 ex_prev)
   \<and> ex_point 1 1700000000000000000 \<notin> set (Snapshot 1700090000000000001 ex_prev)"
proof -
  let ?p = "ex_point 1 1700000000000000000"
  let ?c = "newTimeAwareCollector (25 * Hour)"
  have r: "replay [Collector_Add ?p] ?c = ex_prev"
    by (simp add: ex_prev_def)
  have m: "p_timestamp ?p = 1700000000000000000" "25 * Hour = 90000000000000"
    by (simp_all add: Hour_def ex_point_def)
  have a: "?p \<in> set (c_points ex_prev)"
    using age_filter_at_read_time [of ?p ?c "[]" 0 0] by (simp add: ex_prev_def)
  have "?p \<in> set (Snapshot 1700090000000000000 ex_prev)"
    using age_filter_at_read_time [of ?p ?c "[Collector_Add ?p]" "25 * Hour" 1700090000000000000] a m
    unfolding r by simp
  moreover have "?p \<notin> set (Snapshot 1700090000000000001 ex_prev)"
    using age_filter_at_read_time [of ?p ?c "[Collector_Add ?p]" "25 * Hour" 1700090000000000001] a m
    unfolding r by simp
  ultimately show ?thesis using a r by blast
qed

end
